theory Spec2Isabelle
  imports Complex_Main
begin

section \<open>Maze runner: shallow embedding of the simulation core\<close>

text \<open>
  JavaScript numbers that hold pixel positions, speeds and timers are modelled as
  \<^typ>\<open>real\<close> (rounding of IEEE doubles is not modelled); grid coordinates and
  counters are \<^typ>\<open>int\<close> or \<^typ>\<open>nat\<close>. Objects are records, mutation is explicit
  state passing, and \<open>Math.random()\<close> is an explicit argument.
\<close>

subsection \<open>Maze renderer queries (MazeRenderer.js)\<close>

text \<open>
  A maze is the JavaScript array of rows \<open>maze[y][x]\<close>, modelled as a partial map from
  \<open>(x, y)\<close> to the stored number (\<open>1\<close> wall, \<open>0\<close> path); \<open>None\<close> is
  \<open>undefined\<close>. The renderer's \<open>maze\<close> field may be \<open>null\<close>.
\<close>

type_synonym vec = "real \<times> real"

type_synonym grid = "int \<times> int \<Rightarrow> int option"

record renderer =
  cellSize :: real
  mazeWidth :: int
  mazeHeight :: int
  maze :: "grid option"

definition worldToGrid :: "renderer \<Rightarrow> real \<Rightarrow> real \<Rightarrow> int \<times> int" where
  "worldToGrid r worldX worldY = (\<lfloor>worldX / cellSize r\<rfloor>, \<lfloor>worldY / cellSize r\<rfloor>)"

definition gridToWorld :: "renderer \<Rightarrow> int \<Rightarrow> int \<Rightarrow> vec" where
  "gridToWorld r gridX gridY =
     (of_int gridX * cellSize r + cellSize r / 2, of_int gridY * cellSize r + cellSize r / 2)"

definition isWallAtPosition :: "renderer \<Rightarrow> real \<Rightarrow> real \<Rightarrow> bool" where
  "isWallAtPosition r worldX worldY =
     (case maze r of
        None \<Rightarrow> False
      | Some m \<Rightarrow>
          (let (gx, gy) = worldToGrid r worldX worldY
           in if gx < 0 \<or> gx \<ge> mazeWidth r \<or> gy < 0 \<or> gy \<ge> mazeHeight r then True
              else m (gx, gy) = Some 1))"

definition getMazeDimensions :: "renderer \<Rightarrow> vec" where
  "getMazeDimensions r = (of_int (mazeWidth r) * cellSize r, of_int (mazeHeight r) * cellSize r)"

subsection \<open>Enemy: vulnerability state (Enemy.js)\<close>

text \<open>
  Rendering and animation fields are left out. The enemy's reference to the maze renderer
  is passed to the functions that use it (\<open>None\<close> is \<open>null\<close>).
\<close>

record enemy =
  e_x :: real
  e_y :: real
  e_size :: real
  e_speed :: real
  e_direction :: vec
  targetDirection :: vec
  e_gridX :: int
  e_gridY :: int
  e_isAtIntersection :: bool
  e_type :: string
  e_state :: string
  e_path :: "(int \<times> int) list"
  pathIndex :: nat
  lastPathUpdate :: real
  pathUpdateInterval :: real
  isVulnerable :: bool
  vulnerabilityTimer :: real
  vulnerabilityDuration :: real
  originalSpeed :: "real option"
  e_color :: string
  originalColor :: string

text \<open>
  \<open>setVulnerable(vulnerable, duration = this.vulnerabilityDuration)\<close>: the optional
  argument is an \<^typ>\<open>real option\<close>. The field \<open>originalSpeed\<close> does not exist
  before the first call (\<open>None\<close>); the guard \<open>wasVulnerable && this.originalSpeed\<close>
  tests it for truthiness, so a stored \<open>0\<close> does not restore.
\<close>

definition setVulnerable :: "bool \<Rightarrow> real option \<Rightarrow> enemy \<Rightarrow> enemy" where
  "setVulnerable vulnerable duration e =
     (let wasVulnerable = isVulnerable e;
          e1 = e\<lparr>isVulnerable := vulnerable\<rparr>
      in if vulnerable then
           (let e2 = e1\<lparr>vulnerabilityTimer :=
                        (case duration of None \<Rightarrow> vulnerabilityDuration e | Some d \<Rightarrow> d),
                      e_state := ''vulnerable''\<rparr>;
                e3 = (if \<not> wasVulnerable
                      then e2\<lparr>originalSpeed := Some (e_speed e2),
                              e_speed := e_speed e2 * 0.5\<rparr>
                      else e2)
            in e3\<lparr>e_path := [], pathIndex := 0\<rparr>)
         else
           (let e2 = e1\<lparr>vulnerabilityTimer := 0, e_state := ''chase'',
                        e_color := originalColor e1\<rparr>;
                e3 = (case originalSpeed e2 of
                        Some s \<Rightarrow> if wasVulnerable \<and> s \<noteq> 0 then e2\<lparr>e_speed := s\<rparr> else e2
                      | None \<Rightarrow> e2)
            in e3\<lparr>e_path := [], pathIndex := 0\<rparr>))"

definition updateVulnerabilityState :: "real \<Rightarrow> enemy \<Rightarrow> enemy" where
  "updateVulnerabilityState deltaTime e =
     (if isVulnerable e then
        (let e1 = e\<lparr>vulnerabilityTimer := vulnerabilityTimer e - deltaTime\<rparr>;
             t = vulnerabilityTimer e1
         in if t \<le> 0 then setVulnerable False None e1
            else if t > 3000 then e1\<lparr>e_color := ''#0000FF''\<rparr>
            else if t > 1000 then
              e1\<lparr>e_color := (if \<lfloor>t / 300\<rfloor> mod 2 = 0 then ''#0000FF'' else ''#FFFFFF'')\<rparr>
            else
              e1\<lparr>e_color := (if \<lfloor>t / 100\<rfloor> mod 2 = 0 then ''#0000FF'' else originalColor e1)\<rparr>)
      else e)"


definition enemy0 :: enemy where
  "enemy0 = \<lparr>e_x = 50, e_y = 50, e_size = 16, e_speed = 1.5, e_direction = (0, 0),
     targetDirection = (0, 0), e_gridX = 2, e_gridY = 2, e_isAtIntersection = True,
     e_type = ''ghost'', e_state = ''chase'', e_path = [], pathIndex = 0,
     lastPathUpdate = 0, pathUpdateInterval = 500, isVulnerable = False,
     vulnerabilityTimer = 0, vulnerabilityDuration = 10000, originalSpeed = None,
     e_color = ''#FF69B4'', originalColor = ''#FF69B4''\<rparr>"






subsection \<open>Pellets (Pellet.js)\<close>

text \<open>
  Animation fields are left out. \<open>PelletManager.checkCollisions\<close> returns references to
  the collected pellet objects; a reference is modelled by the pellet's index in
  \<open>this.pellets\<close>, which the function never reorders.
\<close>

record pellet =
  pl_x :: real
  pl_y :: real
  pl_type :: string
  collected :: bool
  pl_size :: real
  points :: int

definition Pellet :: "real \<Rightarrow> real \<Rightarrow> string \<Rightarrow> pellet" where
  "Pellet x y ty =
     (if ty = ''power''
      then \<lparr>pl_x = x, pl_y = y, pl_type = ty, collected = False, pl_size = 8, points = 50\<rparr>
      else \<lparr>pl_x = x, pl_y = y, pl_type = ty, collected = False, pl_size = 3, points = 10\<rparr>)"



record pelletManager =
  pellets :: "pellet list"
  totalPellets :: nat
  collectedPellets :: nat



















definition manager0 :: pelletManager where
  "manager0 = \<lparr>pellets = [Pellet 30 30 ''normal'', Pellet 50 30 ''power''],
                totalPellets = 2, collectedPellets = 0\<rparr>"

subsection \<open>Movement and collision (Player.js, Enemy.js)\<close>

record player =
  p_x :: real
  p_y :: real
  p_size :: real
  p_speed :: real
  p_direction :: vec
  nextDirection :: vec
  targetGridX :: int
  targetGridY :: int
  p_isAtIntersection :: bool
  intersectionThreshold :: real
  isMoving :: bool

text \<open>The four-corner collision test; Player and Enemy have the same code.\<close>

definition canMoveToPosition :: "renderer option \<Rightarrow> real \<Rightarrow> real \<Rightarrow> real \<Rightarrow> bool" where
  "canMoveToPosition mr sz x y =
     (case mr of
        None \<Rightarrow> True
      | Some r \<Rightarrow>
          (let halfSize = sz / 2;
               corners = [(x - halfSize, y - halfSize), (x + halfSize, y - halfSize),
                          (x - halfSize, y + halfSize), (x + halfSize, y + halfSize)]
           in \<not> list_ex (\<lambda>(cx, cy). isWallAtPosition r cx cy) corners))"

definition p_canMoveToPosition :: "renderer option \<Rightarrow> player \<Rightarrow> real \<Rightarrow> real \<Rightarrow> bool" where
  "p_canMoveToPosition mr p x y = canMoveToPosition mr (p_size p) x y"

definition p_updateGridPosition :: "renderer option \<Rightarrow> player \<Rightarrow> player" where
  "p_updateGridPosition mr p =
     (case mr of
        None \<Rightarrow> p
      | Some r \<Rightarrow>
          (let (gx, gy) = worldToGrid r (p_x p) (p_y p);
               p1 = p\<lparr>targetGridX := gx, targetGridY := gy\<rparr>;
               (cx, cy) = gridToWorld r gx gy;
               distanceToCenter = sqrt ((p_x p1 - cx)\<^sup>2 + (p_y p1 - cy)\<^sup>2)
           in p1\<lparr>p_isAtIntersection := (distanceToCenter \<le> intersectionThreshold p1)\<rparr>))"

definition snapToNearestGridCenter :: "renderer option \<Rightarrow> player \<Rightarrow> player" where
  "snapToNearestGridCenter mr p =
     (case mr of
        None \<Rightarrow> p
      | Some r \<Rightarrow>
          (let gridX = \<lfloor>p_x p / cellSize r\<rfloor>;
               gridY = \<lfloor>p_y p / cellSize r\<rfloor>;
               centerX = of_int gridX * cellSize r + cellSize r / 2;
               centerY = of_int gridY * cellSize r + cellSize r / 2
           in p\<lparr>p_x := centerX, p_y := centerY, p_isAtIntersection := True\<rparr>))"

definition canMoveInDirection :: "renderer option \<Rightarrow> player \<Rightarrow> vec \<Rightarrow> bool" where
  "canMoveInDirection mr p d =
     p_canMoveToPosition mr p (p_x p + fst d * p_speed p) (p_y p + snd d * p_speed p)"

text \<open>
  \<open>Player.handleMovement\<close>, in two parts: the queued-direction block, then the move.
\<close>

definition p_tryQueuedDirection :: "renderer option \<Rightarrow> player \<Rightarrow> player" where
  "p_tryQueuedDirection mr p =
     (if fst (nextDirection p) \<noteq> 0 \<or> snd (nextDirection p) \<noteq> 0 then
        (if canMoveInDirection mr p (nextDirection p)
         then p\<lparr>p_direction := nextDirection p, nextDirection := (0, 0)\<rparr>
         else p\<lparr>nextDirection := (0, 0)\<rparr>)
      else p)"

definition p_handleMovement :: "renderer option \<Rightarrow> player \<Rightarrow> player" where
  "p_handleMovement mr p =
     (let p2 = p_tryQueuedDirection mr (p_updateGridPosition mr p)
      in if fst (p_direction p2) \<noteq> 0 \<or> snd (p_direction p2) \<noteq> 0 then
           (let newX = p_x p2 + fst (p_direction p2) * p_speed p2;
                newY = p_y p2 + snd (p_direction p2) * p_speed p2
            in if p_canMoveToPosition mr p2 newX newY
               then p2\<lparr>p_x := newX, p_y := newY, isMoving := True\<rparr>
               else (snapToNearestGridCenter mr p2)\<lparr>p_direction := (0, 0), isMoving := False\<rparr>)
         else p2\<lparr>isMoving := False\<rparr>)"

text \<open>
  \<open>Player.handleEdgeWrapping\<close> threads a flag \<open>wrapped\<close> through a horizontal block,
  a vertical block and a final corner block that repeats both; the two blocks are
  written once here, each returning the new player and whether it wrapped.
\<close>

definition p_wrapHorizontal :: "renderer \<Rightarrow> player \<Rightarrow> player \<times> bool" where
  "p_wrapHorizontal r p =
     (let (width, height) = getMazeDimensions r; cs = cellSize r
      in if p_x p < cs / 2 then
           (let rightEdgeX = width - cs / 2
            in if p_canMoveToPosition (Some r) p rightEdgeX (p_y p)
               then (p\<lparr>p_x := rightEdgeX\<rparr>, True) else (p, False))
         else if p_x p > width - cs / 2 then
           (let leftEdgeX = cs / 2
            in if p_canMoveToPosition (Some r) p leftEdgeX (p_y p)
               then (p\<lparr>p_x := leftEdgeX\<rparr>, True) else (p, False))
         else (p, False))"

definition p_wrapVertical :: "renderer \<Rightarrow> player \<Rightarrow> player \<times> bool" where
  "p_wrapVertical r p =
     (let (width, height) = getMazeDimensions r; cs = cellSize r
      in if p_y p < cs / 2 then
           (let bottomEdgeY = height - cs / 2
            in if p_canMoveToPosition (Some r) p (p_x p) bottomEdgeY
               then (p\<lparr>p_y := bottomEdgeY\<rparr>, True) else (p, False))
         else if p_y p > height - cs / 2 then
           (let topEdgeY = cs / 2
            in if p_canMoveToPosition (Some r) p (p_x p) topEdgeY
               then (p\<lparr>p_y := topEdgeY\<rparr>, True) else (p, False))
         else (p, False))"

definition p_handleEdgeWrapping :: "renderer option \<Rightarrow> player \<Rightarrow> player" where
  "p_handleEdgeWrapping mr p =
     (case mr of
        None \<Rightarrow> p
      | Some r \<Rightarrow>
          (let (width, height) = getMazeDimensions r; cs = cellSize r;
               (p1, wrapped1) = p_wrapHorizontal r p;
               (p2, wrapped2) = (if \<not> wrapped1 then p_wrapVertical r p1 else (p1, wrapped1))
           in if \<not> wrapped2 then
                (if (p_x p2 < cs / 2 \<or> p_x p2 > width - cs / 2) \<and>
                    (p_y p2 < cs / 2 \<or> p_y p2 > height - cs / 2) then
                   (let (p3, wrapped3) = p_wrapHorizontal r p2
                    in if \<not> wrapped3 then fst (p_wrapVertical r p3) else p3)
                 else p2)
              else p2))"

text \<open>\<open>Player.update\<close>; the animation fields are not modelled.\<close>

definition p_update :: "renderer option \<Rightarrow> real \<Rightarrow> player \<Rightarrow> player" where
  "p_update mr deltaTime p = p_handleEdgeWrapping mr (p_handleMovement mr p)"

definition setDirection :: "renderer option \<Rightarrow> string \<Rightarrow> player \<Rightarrow> player" where
  "setDirection mr direction p =
     (let turn = (\<lambda>d. let p1 = p\<lparr>nextDirection := d\<rparr>
                       in if canMoveInDirection mr p1 (nextDirection p1)
                          then p1\<lparr>p_direction := nextDirection p1, nextDirection := (0, 0)\<rparr>
                          else p1)
      in if direction = ''up'' then turn (0, -1)
         else if direction = ''down'' then turn (0, 1)
         else if direction = ''left'' then turn (-1, 0)
         else if direction = ''right'' then turn (1, 0)
         else p)"

subsubsection \<open>Enemy movement\<close>

definition e_canMoveToPosition :: "renderer option \<Rightarrow> enemy \<Rightarrow> real \<Rightarrow> real \<Rightarrow> bool" where
  "e_canMoveToPosition mr e x y = canMoveToPosition mr (e_size e) x y"

definition e_updateGridPosition :: "renderer option \<Rightarrow> enemy \<Rightarrow> enemy" where
  "e_updateGridPosition mr e =
     (case mr of
        None \<Rightarrow> e
      | Some r \<Rightarrow>
          (let (gx, gy) = worldToGrid r (e_x e) (e_y e);
               e1 = e\<lparr>e_gridX := gx, e_gridY := gy\<rparr>;
               (cx, cy) = gridToWorld r gx gy;
               distanceToCenter = sqrt ((e_x e1 - cx)\<^sup>2 + (e_y e1 - cy)\<^sup>2)
           in e1\<lparr>e_isAtIntersection := (distanceToCenter \<le> 5)\<rparr>))"

definition handleWallCollision :: "renderer option \<Rightarrow> enemy \<Rightarrow> enemy" where
  "handleWallCollision mr e =
     (let (dx, dy) = e_direction e;
          alternatives = [(- dy, dx), (dy, - dx), (- dx, - dy)]
      in case find (\<lambda>(ax, ay). e_canMoveToPosition mr e (e_x e + ax * e_speed e)
                                                     (e_y e + ay * e_speed e)) alternatives of
           Some alt \<Rightarrow> e\<lparr>e_direction := alt\<rparr>
         | None \<Rightarrow> e)"

text \<open>
  \<open>Enemy.handleMovement\<close>, in two parts: the grid update with the smoothing of the
  direction, then the move.
\<close>

definition e_smoothDirection :: "renderer option \<Rightarrow> enemy \<Rightarrow> enemy" where
  "e_smoothDirection mr e =
     (let e1 = e_updateGridPosition mr e;
          smoothing = 0.1;
          (dx, dy) = e_direction e1;
          (tx, ty) = targetDirection e1
      in e1\<lparr>e_direction := (dx + (tx - dx) * smoothing, dy + (ty - dy) * smoothing)\<rparr>)"

definition e_handleMovement :: "renderer option \<Rightarrow> enemy \<Rightarrow> enemy" where
  "e_handleMovement mr e =
     (let e2 = e_smoothDirection mr e;
          newX = e_x e2 + fst (e_direction e2) * e_speed e2;
          newY = e_y e2 + snd (e_direction e2) * e_speed e2
      in if e_canMoveToPosition mr e2 newX newY
         then e2\<lparr>e_x := newX, e_y := newY\<rparr>
         else handleWallCollision mr e2)"

definition e_handleEdgeWrapping :: "renderer option \<Rightarrow> enemy \<Rightarrow> enemy" where
  "e_handleEdgeWrapping mr e =
     (case mr of
        None \<Rightarrow> e
      | Some r \<Rightarrow>
          (let (width, height) = getMazeDimensions r; cs = cellSize r;
               e1 = (if e_x e < cs / 2 then
                       (let rightEdgeX = width - cs / 2
                        in if e_canMoveToPosition mr e rightEdgeX (e_y e)
                           then e\<lparr>e_x := rightEdgeX\<rparr> else e)
                     else if e_x e > width - cs / 2 then
                       (let leftEdgeX = cs / 2
                        in if e_canMoveToPosition mr e leftEdgeX (e_y e)
                           then e\<lparr>e_x := leftEdgeX\<rparr> else e)
                     else e)
           in if e_y e1 < cs / 2 then
                (let bottomEdgeY = height - cs / 2
                 in if e_canMoveToPosition mr e1 (e_x e1) bottomEdgeY
                    then e1\<lparr>e_y := bottomEdgeY\<rparr> else e1)
              else if e_y e1 > height - cs / 2 then
                (let topEdgeY = cs / 2
                 in if e_canMoveToPosition mr e1 (e_x e1) topEdgeY
                    then e1\<lparr>e_y := topEdgeY\<rparr> else e1)
              else e1))"

text \<open>
  \<open>Enemy.update\<close> runs \<open>updateVulnerabilityState\<close>, \<open>updateAI\<close>, \<open>handleMovement\<close> and
  \<open>handleEdgeWrapping\<close>. \<open>updateAI\<close> (path planning and \<open>followPath\<close>) writes only the
  planning fields and \<open>targetDirection\<close>; the direction it leaves there is the argument
  \<open>td\<close> of this step.
\<close>

definition e_update :: "renderer option \<Rightarrow> real \<Rightarrow> vec \<Rightarrow> enemy \<Rightarrow> enemy" where
  "e_update mr deltaTime td e =
     e_handleEdgeWrapping mr
       (e_handleMovement mr ((updateVulnerabilityState deltaTime e)\<lparr>targetDirection := td\<rparr>))"


text \<open>Runs of update steps: per tick an optional direction command, then \<open>update\<close>.\<close>

fun playerTicks :: "renderer option \<Rightarrow> (string option \<times> real) list \<Rightarrow> player \<Rightarrow> player" where
  "playerTicks mr [] p = p"
| "playerTicks mr ((cmd, deltaTime) # rest) p =
     playerTicks mr rest
       (p_update mr deltaTime (case cmd of None \<Rightarrow> p | Some d \<Rightarrow> setDirection mr d p))"

fun enemyTicks :: "renderer option \<Rightarrow> (real \<times> vec) list \<Rightarrow> enemy \<Rightarrow> enemy" where
  "enemyTicks mr [] e = e"
| "enemyTicks mr ((deltaTime, td) # rest) e = enemyTicks mr rest (e_update mr deltaTime td e)"

text \<open>A grid given by its rows, as the array literal \<open>[[...], ...]\<close>.\<close>

definition gridOfRows :: "int list list \<Rightarrow> grid" where
  "gridOfRows rows = (\<lambda>(x, y).
     if 0 \<le> y \<and> nat y < length rows \<and> 0 \<le> x \<and> nat x < length (rows ! nat y)
     then Some (rows ! nat y ! nat x) else None)"

lemma isWall_same_cell:
  "worldToGrid r a b = worldToGrid r a' b' \<Longrightarrow> isWallAtPosition r a b = isWallAtPosition r a' b'"
  by (cases "maze r") (simp_all add: isWallAtPosition_def)

lemma canMove_Some:
  "canMoveToPosition (Some r) sz x y \<longleftrightarrow>
     \<not> isWallAtPosition r (x - sz / 2) (y - sz / 2) \<and> \<not> isWallAtPosition r (x + sz / 2) (y - sz / 2)
   \<and> \<not> isWallAtPosition r (x - sz / 2) (y + sz / 2) \<and> \<not> isWallAtPosition r (x + sz / 2) (y + sz / 2)"
  by (simp add: canMoveToPosition_def Let_def)

lemma floor_center_plus:
  fixes c h :: real
  assumes "0 < c" "0 \<le> h" "2 * h < c"
  shows "\<lfloor>(of_int g * c + c / 2 + h) / c\<rfloor> = g"
proof (rule floor_unique)
  show "of_int g \<le> (of_int g * c + c / 2 + h) / c"
    using assms by (simp add: field_simps)
  show "(of_int g * c + c / 2 + h) / c < of_int g + 1"
    using assms by (simp add: field_simps)
qed

lemma floor_center_minus:
  fixes c h :: real
  assumes "0 < c" "0 \<le> h" "2 * h < c"
  shows "\<lfloor>(of_int g * c + c / 2 - h) / c\<rfloor> = g"
proof (rule floor_unique)
  show "of_int g \<le> (of_int g * c + c / 2 - h) / c"
    using assms by (simp add: field_simps)
  show "(of_int g * c + c / 2 - h) / c < of_int g + 1"
    using assms by (simp add: field_simps)
qed

lemma floor_between:
  fixes c h x :: real
  assumes "0 < c" "0 \<le> h" "2 * h < c"
  shows "\<lfloor>x / c\<rfloor> = \<lfloor>(x - h) / c\<rfloor> \<or> \<lfloor>x / c\<rfloor> = \<lfloor>(x + h) / c\<rfloor>"
proof -
  have lo: "\<lfloor>(x - h) / c\<rfloor> \<le> \<lfloor>x / c\<rfloor>"
    using assms by (intro floor_mono divide_right_mono) simp_all
  have hi: "\<lfloor>x / c\<rfloor> \<le> \<lfloor>(x + h) / c\<rfloor>"
    using assms by (intro floor_mono divide_right_mono) simp_all
  have "(x + h) / c \<le> (x - h) / c + 1"
    using assms by (simp add: field_simps)
  then have "\<lfloor>(x + h) / c\<rfloor> \<le> \<lfloor>(x - h) / c + 1\<rfloor>"
    by (rule floor_mono)
  then have "\<lfloor>(x + h) / c\<rfloor> \<le> \<lfloor>(x - h) / c\<rfloor> + 1"
    by simp
  with lo hi show ?thesis by linarith
qed

lemma snap_keeps_clear:
  assumes c: "0 < cellSize r" and s: "0 \<le> sz" "sz < cellSize r"
    and ok: "canMoveToPosition (Some r) sz x y"
  shows "canMoveToPosition (Some r) sz
           (of_int \<lfloor>x / cellSize r\<rfloor> * cellSize r + cellSize r / 2)
           (of_int \<lfloor>y / cellSize r\<rfloor> * cellSize r + cellSize r / 2)"
proof -
  let ?c = "cellSize r" and ?h = "sz / 2"
  let ?gx = "\<lfloor>x / ?c\<rfloor>" and ?gy = "\<lfloor>y / ?c\<rfloor>"
  have h: "0 \<le> ?h" "2 * ?h < ?c" using s by simp_all
  obtain a where a: "a = x - ?h \<or> a = x + ?h" "\<lfloor>a / ?c\<rfloor> = ?gx"
    using floor_between [OF c h, of x] by metis
  obtain b where b: "b = y - ?h \<or> b = y + ?h" "\<lfloor>b / ?c\<rfloor> = ?gy"
    using floor_between [OF c h, of y] by metis
  have corner: "\<not> isWallAtPosition r a b"
    using ok a(1) b(1) by (auto simp: canMove_Some)
  have cell: "worldToGrid r a b = (?gx, ?gy)"
    using a(2) b(2) by (simp add: worldToGrid_def)
  have same: "worldToGrid r (of_int ?gx * ?c + ?c / 2 + sx) (of_int ?gy * ?c + ?c / 2 + sy)
                = (?gx, ?gy)"
    if "sx = ?h \<or> sx = - ?h" "sy = ?h \<or> sy = - ?h" for sx sy
    using that floor_center_plus [OF c h] floor_center_minus [OF c h]
    by (auto simp: worldToGrid_def)
  have "\<not> isWallAtPosition r (of_int ?gx * ?c + ?c / 2 + sx) (of_int ?gy * ?c + ?c / 2 + sy)"
    if "sx = ?h \<or> sx = - ?h" "sy = ?h \<or> sy = - ?h" for sx sy
    using corner isWall_same_cell [of r a b] cell same [OF that] by metis
  from this [of "?h" "?h"] this [of "- ?h" "?h"] this [of "?h" "- ?h"] this [of "- ?h" "- ?h"]
  show ?thesis
    by (simp add: canMove_Some)
qed

definition playerClear :: "renderer option \<Rightarrow> player \<Rightarrow> bool" where
  "playerClear mr p = p_canMoveToPosition mr p (p_x p) (p_y p)"

definition enemyClear :: "renderer option \<Rightarrow> enemy \<Rightarrow> bool" where
  "enemyClear mr e = e_canMoveToPosition mr e (e_x e) (e_y e)"

lemma p_updateGridPosition_pos [simp]:
  "p_x (p_updateGridPosition mr p) = p_x p" "p_y (p_updateGridPosition mr p) = p_y p"
  "p_size (p_updateGridPosition mr p) = p_size p" "p_speed (p_updateGridPosition mr p) = p_speed p"
  "p_direction (p_updateGridPosition mr p) = p_direction p"
  "nextDirection (p_updateGridPosition mr p) = nextDirection p"
  by (simp_all add: p_updateGridPosition_def Let_def split_beta split: option.splits)

lemma p_tryQueuedDirection_pos [simp]:
  "p_x (p_tryQueuedDirection mr p) = p_x p" "p_y (p_tryQueuedDirection mr p) = p_y p"
  "p_size (p_tryQueuedDirection mr p) = p_size p" "p_speed (p_tryQueuedDirection mr p) = p_speed p"
  by (simp_all add: p_tryQueuedDirection_def)

lemma setDirection_pos [simp]:
  "p_x (setDirection mr d p) = p_x p" "p_y (setDirection mr d p) = p_y p"
  "p_size (setDirection mr d p) = p_size p"
  by (simp_all add: setDirection_def Let_def)

lemma p_handleMovement_size [simp]: "p_size (p_handleMovement mr p) = p_size p"
  by (simp add: p_handleMovement_def Let_def snapToNearestGridCenter_def split: option.splits)

lemma p_handleMovement_clear:
  assumes "\<And>r. mr = Some r \<Longrightarrow> 0 < cellSize r \<and> 0 \<le> p_size p \<and> p_size p < cellSize r"
    and "playerClear mr p"
  shows "playerClear mr (p_handleMovement mr p)"
proof (cases mr)
  case None
  then show ?thesis by (simp add: playerClear_def p_canMoveToPosition_def canMoveToPosition_def)
next
  case (Some r)
  let ?p2 = "p_tryQueuedDirection mr (p_updateGridPosition mr p)"
  have snap: "canMoveToPosition (Some r) (p_size p)
           (of_int \<lfloor>p_x p / cellSize r\<rfloor> * cellSize r + cellSize r / 2)
           (of_int \<lfloor>p_y p / cellSize r\<rfloor> * cellSize r + cellSize r / 2)"
    using assms Some snap_keeps_clear [of r "p_size p" "p_x p" "p_y p"]
    by (simp add: playerClear_def p_canMoveToPosition_def)
  show ?thesis
    using assms(2) snap Some
    by (simp add: playerClear_def p_handleMovement_def Let_def p_canMoveToPosition_def
        snapToNearestGridCenter_def)
qed


lemma p_wrapHorizontal_cases:
  "p_wrapHorizontal r p = (p', w) \<Longrightarrow>
     p_size p' = p_size p \<and> p_y p' = p_y p \<and>
     ((\<not> w \<and> p' = p) \<or>
      (w \<and> p' = p\<lparr>p_x := p_x p'\<rparr> \<and> p_canMoveToPosition (Some r) p (p_x p') (p_y p) \<and>
       ((p_x p < cellSize r / 2 \<and> p_x p' = fst (getMazeDimensions r) - cellSize r / 2) \<or>
        (\<not> p_x p < cellSize r / 2 \<and> p_x p > fst (getMazeDimensions r) - cellSize r / 2
           \<and> p_x p' = cellSize r / 2))))"
  by (auto simp: p_wrapHorizontal_def Let_def split_beta split: if_splits)

lemma p_wrapVertical_cases:
  "p_wrapVertical r p = (p', w) \<Longrightarrow>
     p_size p' = p_size p \<and> p_x p' = p_x p \<and>
     ((\<not> w \<and> p' = p) \<or>
      (w \<and> p' = p\<lparr>p_y := p_y p'\<rparr> \<and> p_canMoveToPosition (Some r) p (p_x p) (p_y p') \<and>
       ((p_y p < cellSize r / 2 \<and> p_y p' = snd (getMazeDimensions r) - cellSize r / 2) \<or>
        (\<not> p_y p < cellSize r / 2 \<and> p_y p > snd (getMazeDimensions r) - cellSize r / 2
           \<and> p_y p' = cellSize r / 2))))"
  by (auto simp: p_wrapVertical_def Let_def split_beta split: if_splits)

lemma p_wrapHorizontal_left:
  "p_x p < cellSize r / 2 \<Longrightarrow>
   p_canMoveToPosition (Some r) p (fst (getMazeDimensions r) - cellSize r / 2) (p_y p) \<Longrightarrow>
   p_wrapHorizontal r p = (p\<lparr>p_x := fst (getMazeDimensions r) - cellSize r / 2\<rparr>, True)"
  by (simp add: p_wrapHorizontal_def Let_def split_beta)

text \<open>What one call of \<open>Player.handleEdgeWrapping\<close> can do.\<close>

lemma p_handleEdgeWrapping_cases:
  assumes "p' = p_handleEdgeWrapping (Some r) p"
  shows "p' = p
       \<or> (p' = p\<lparr>p_x := p_x p'\<rparr> \<and> p_canMoveToPosition (Some r) p (p_x p') (p_y p))
       \<or> (p' = p\<lparr>p_y := p_y p'\<rparr> \<and> p_canMoveToPosition (Some r) p (p_x p) (p_y p'))"
proof -
  obtain p1 w1 where h: "p_wrapHorizontal r p = (p1, w1)" by (cases "p_wrapHorizontal r p")
  obtain p2 w2 where v: "p_wrapVertical r p = (p2, w2)" by (cases "p_wrapVertical r p")
  note H = p_wrapHorizontal_cases [OF h] and V = p_wrapVertical_cases [OF v]
  show ?thesis
  proof (cases w1)
    case True
    then have "p' = p1" using assms h by (simp add: p_handleEdgeWrapping_def Let_def split_beta)
    with H True show ?thesis by auto
  next
    case nw1: False
    then have p1: "p1 = p" using H by auto
    show ?thesis
    proof (cases w2)
      case True
      then have "p' = p2"
        using assms h v nw1 p1 by (simp add: p_handleEdgeWrapping_def Let_def split_beta)
      with V True show ?thesis by auto
    next
      case False
      then have p2: "p2 = p" using V by auto
      have "p' = p"
        using assms h v nw1 p1 False p2
        by (simp add: p_handleEdgeWrapping_def Let_def split_beta)
      then show ?thesis by simp
    qed
  qed
qed

lemma p_handleEdgeWrapping_size [simp]: "p_size (p_handleEdgeWrapping mr p) = p_size p"
proof (cases mr)
  case None then show ?thesis by (simp add: p_handleEdgeWrapping_def)
next
  case (Some r)
  from p_handleEdgeWrapping_cases [OF refl, of r p] show ?thesis
    unfolding Some by (metis player.select_convs(3) player.surjective player.update_convs(1,2))
qed

lemma p_handleEdgeWrapping_clear:
  assumes "playerClear mr p"
  shows "playerClear mr (p_handleEdgeWrapping mr p)"
proof (cases mr)
  case None
  then show ?thesis by (simp add: playerClear_def p_canMoveToPosition_def canMoveToPosition_def)
next
  case (Some r)
  let ?p' = "p_handleEdgeWrapping (Some r) p"
  have sz: "p_size ?p' = p_size p" by simp
  from p_handleEdgeWrapping_cases [OF refl, of r p]
  consider "?p' = p"
    | "p_y ?p' = p_y p" "p_canMoveToPosition (Some r) p (p_x ?p') (p_y p)"
    | "p_x ?p' = p_x p" "p_canMoveToPosition (Some r) p (p_x p) (p_y ?p')"
    by (metis player.select_convs(1,2) player.surjective player.update_convs(1,2))
  then show ?thesis
    using assms sz unfolding Some playerClear_def p_canMoveToPosition_def
    by cases simp_all
qed


lemma p_update_clear:
  assumes "\<And>r. mr = Some r \<Longrightarrow> 0 < cellSize r \<and> 0 \<le> p_size p \<and> p_size p < cellSize r"
    and "playerClear mr p"
  shows "playerClear mr (p_update mr dt p)"
  unfolding p_update_def
  by (intro p_handleEdgeWrapping_clear p_handleMovement_clear assms)

lemma setDirection_clear: "playerClear mr (setDirection mr d p) = playerClear mr p"
  by (simp add: playerClear_def p_canMoveToPosition_def)

lemma p_update_size [simp]: "p_size (p_update mr dt p) = p_size p"
  by (simp add: p_update_def)

lemma playerTicks_clear:
  assumes "\<And>r. mr = Some r \<Longrightarrow> 0 < cellSize r \<and> 0 \<le> p_size p \<and> p_size p < cellSize r"
    and "playerClear mr p"
  shows "playerClear mr (playerTicks mr inputs p)"
  using assms
proof (induction inputs arbitrary: p)
  case Nil
  then show ?case by simp
next
  case (Cons inp inputs)
  obtain cmd dt where inp: "inp = (cmd, dt)" by (cases inp)
  let ?q = "case cmd of None \<Rightarrow> p | Some d \<Rightarrow> setDirection mr d p"
  have qs: "p_size ?q = p_size p" by (cases cmd) simp_all
  have qc: "playerClear mr ?q" using Cons.prems(2) by (cases cmd) (simp_all add: setDirection_clear)
  have "playerClear mr (p_update mr dt ?q)"
    using Cons.prems(1) qs qc by (intro p_update_clear) simp_all
  moreover have "p_size (p_update mr dt ?q) = p_size p" using qs by simp
  ultimately show ?case
    using Cons.IH [of "p_update mr dt ?q"] Cons.prems(1) by (simp add: inp)
qed

lemma e_updateGridPosition_pos [simp]:
  "e_x (e_updateGridPosition mr e) = e_x e" "e_y (e_updateGridPosition mr e) = e_y e"
  "e_size (e_updateGridPosition mr e) = e_size e" "e_speed (e_updateGridPosition mr e) = e_speed e"
  "e_direction (e_updateGridPosition mr e) = e_direction e"
  "targetDirection (e_updateGridPosition mr e) = targetDirection e"
  by (simp_all add: e_updateGridPosition_def Let_def split_beta split: option.splits)

lemma e_smoothDirection_pos [simp]:
  "e_x (e_smoothDirection mr e) = e_x e" "e_y (e_smoothDirection mr e) = e_y e"
  "e_size (e_smoothDirection mr e) = e_size e" "e_speed (e_smoothDirection mr e) = e_speed e"
  by (simp_all add: e_smoothDirection_def Let_def split_beta)

lemma handleWallCollision_pos [simp]:
  "e_x (handleWallCollision mr e) = e_x e" "e_y (handleWallCollision mr e) = e_y e"
  "e_size (handleWallCollision mr e) = e_size e"
  by (simp_all add: handleWallCollision_def Let_def split_beta split: option.splits)

lemma e_handleMovement_size [simp]: "e_size (e_handleMovement mr e) = e_size e"
  by (simp add: e_handleMovement_def Let_def)

lemma e_handleMovement_clear:
  "enemyClear mr e \<Longrightarrow> enemyClear mr (e_handleMovement mr e)"
  by (simp add: enemyClear_def e_handleMovement_def Let_def e_canMoveToPosition_def)

lemma e_handleEdgeWrapping_size [simp]: "e_size (e_handleEdgeWrapping mr e) = e_size e"
  by (simp add: e_handleEdgeWrapping_def Let_def split_beta split: option.splits)

lemma e_handleEdgeWrapping_clear:
  "enemyClear mr e \<Longrightarrow> enemyClear mr (e_handleEdgeWrapping mr e)"
  by (cases mr)
     (simp_all add: enemyClear_def e_handleEdgeWrapping_def Let_def split_beta
        e_canMoveToPosition_def)

lemma updateVulnerabilityState_pos [simp]:
  "e_x (updateVulnerabilityState dt e) = e_x e" "e_y (updateVulnerabilityState dt e) = e_y e"
  "e_size (updateVulnerabilityState dt e) = e_size e"
  by (simp_all add: updateVulnerabilityState_def setVulnerable_def Let_def split: option.splits)

lemma e_update_clear: "enemyClear mr e \<Longrightarrow> enemyClear mr (e_update mr dt td e)"
  unfolding e_update_def
  by (intro e_handleEdgeWrapping_clear e_handleMovement_clear)
     (simp add: enemyClear_def e_canMoveToPosition_def)

lemma enemyTicks_clear: "enemyClear mr e \<Longrightarrow> enemyClear mr (enemyTicks mr steps e)"
proof (induction steps arbitrary: e)
  case Nil
  then show ?case by simp
next
  case (Cons st steps)
  obtain dt td where st: "st = (dt, td)" by (cases st)
  show ?case
    using Cons.IH [OF e_update_clear [OF Cons.prems, of dt td]] by (simp add: st)
qed

text \<open>
  C2. From a position that passes the four-corner test, every run of update steps keeps
  the agent's four bounding-box corners off wall cells (cells outside the grid count as
  wall), for the player under any direction commands and for an enemy under any target
  directions chosen by its planner; moves, wall snapping and edge wraparound included.
  The player's size is below the cell size (16 against 20 in the constructors), so the
  four corners cover every cell the box touches.
\<close>

theorem no_wall_penetration:
  assumes "\<And>r. mr = Some r \<Longrightarrow> 0 < cellSize r \<and> 0 \<le> p_size p \<and> p_size p < cellSize r"
    and "p_canMoveToPosition mr p (p_x p) (p_y p)"
    and "e_canMoveToPosition mr e (e_x e) (e_y e)"
  shows "(let p' = playerTicks mr inputs p in p_canMoveToPosition mr p' (p_x p') (p_y p'))
       \<and> (let e' = enemyTicks mr steps e in e_canMoveToPosition mr e' (e_x e') (e_y e'))"
  using playerTicks_clear [of mr p inputs] enemyTicks_clear [of mr e steps] assms
  by (simp add: playerClear_def enemyClear_def Let_def)

definition renderer0 :: renderer where
  "renderer0 = \<lparr>cellSize = 20, mazeWidth = 5, mazeHeight = 5,
     maze = Some (gridOfRows [[1, 1, 1, 1, 1], [1, 0, 0, 0, 1], [1, 0, 0, 0, 1],
                              [1, 0, 0, 0, 1], [1, 1, 1, 1, 1]])\<rparr>"

definition rendererOpen :: renderer where
  "rendererOpen = \<lparr>cellSize = 20, mazeWidth = 3, mazeHeight = 3,
     maze = Some (gridOfRows [[0, 0, 0], [0, 0, 0], [0, 0, 0]])\<rparr>"

definition player0 :: player where
  "player0 = \<lparr>p_x = 30, p_y = 30, p_size = 16, p_speed = 2, p_direction = (0, 0),
     nextDirection = (0, 0), targetGridX = 1, targetGridY = 1, p_isAtIntersection = True,
     intersectionThreshold = 5, isMoving = False\<rparr>"



lemmas eval_defs = isWallAtPosition_def worldToGrid_def gridOfRows_def gridToWorld_def
  canMoveToPosition_def p_canMoveToPosition_def e_canMoveToPosition_def getMazeDimensions_def
  Let_def split_beta

definition enemyAtWall :: enemy where
  "enemyAtWall = enemy0\<lparr>e_x := 71, e_y := 50, e_direction := (1, 0), targetDirection := (1, 0)\<rparr>"

definition playerAtWall :: player where
  "playerAtWall = player0\<lparr>p_x := 71, p_y := 50, p_direction := (1, 0)\<rparr>"

definition enemyAtCorner :: enemy where
  "enemyAtCorner = enemy0\<lparr>e_x := 9, e_y := 9\<rparr>"

definition playerAtCorner :: player where
  "playerAtCorner = player0\<lparr>p_x := 9, p_y := 9\<rparr>"

subsubsection \<open>Wall-hit resolution\<close>

text \<open>
  C5, as stated, fails for enemies: an enemy at \<open>(71, 50)\<close> heading right against the wall
  column of \<open>renderer0\<close> has its move rejected, stays at \<open>(71, 50)\<close> (the cell centre is
  \<open>(70, 50)\<close>) and turns to \<open>(0, 1)\<close>.
\<close>

theorem enemy_wall_hit_counterexample:
  "\<not> (let e2 = e_smoothDirection (Some renderer0) enemyAtWall;
           e' = e_handleMovement (Some renderer0) enemyAtWall
       in \<not> e_canMoveToPosition (Some renderer0) e2
              (e_x e2 + fst (e_direction e2) * e_speed e2)
              (e_y e2 + snd (e_direction e2) * e_speed e2)
          \<longrightarrow> (e_x e', e_y e') = gridToWorld renderer0 (fst (worldToGrid renderer0 (e_x enemyAtWall) (e_y enemyAtWall)))
                                                       (snd (worldToGrid renderer0 (e_x enemyAtWall) (e_y enemyAtWall)))
              \<and> e_direction e' = (0, 0))"
  by (simp add: e_handleMovement_def e_smoothDirection_def handleWallCollision_def
      enemyAtWall_def enemy0_def renderer0_def eval_defs)

text \<open>\<open>handleWallCollision\<close> takes the first alternative whose step passes the test.\<close>

lemma handleWallCollision_first:
  "handleWallCollision mr e =
     (let dx = fst (e_direction e); dy = snd (e_direction e);
          passes = (\<lambda>ax ay. e_canMoveToPosition mr e (e_x e + ax * e_speed e)
                                                      (e_y e + ay * e_speed e))
      in if passes (- dy) dx then e\<lparr>e_direction := (- dy, dx)\<rparr>
         else if passes dy (- dx) then e\<lparr>e_direction := (dy, - dx)\<rparr>
         else if passes (- dx) (- dy) then e\<lparr>e_direction := (- dx, - dy)\<rparr>
         else e)"
  by (simp add: handleWallCollision_def Let_def split_beta)

text \<open>
  C5, amended. When the player's forward move is rejected by the collision test, the
  player is placed at the exact centre of its current grid cell and its direction becomes
  \<open>(0, 0)\<close>. When an enemy's forward move is rejected, its position is unchanged and its
  direction becomes the first of turn-left \<open>(-dy, dx)\<close>, turn-right \<open>(dy, -dx)\<close> and
  turn-around \<open>(-dx, -dy)\<close> whose step passes the collision test, and stays \<open>(dx, dy)\<close>
  only if none of the three passes; nothing else of the enemy changes.
\<close>

theorem wall_hit_resolution:
  shows "(let p2 = p_tryQueuedDirection (Some r) (p_updateGridPosition (Some r) p);
              p' = p_handleMovement (Some r) p
          in (fst (p_direction p2) \<noteq> 0 \<or> snd (p_direction p2) \<noteq> 0) \<and>
             \<not> p_canMoveToPosition (Some r) p2 (p_x p2 + fst (p_direction p2) * p_speed p2)
                                                (p_y p2 + snd (p_direction p2) * p_speed p2)
             \<longrightarrow> (p_x p', p_y p') = gridToWorld r (fst (worldToGrid r (p_x p) (p_y p)))
                                                  (snd (worldToGrid r (p_x p) (p_y p)))
                \<and> p_direction p' = (0, 0))
       \<and> (let e2 = e_smoothDirection mr e;
              e' = e_handleMovement mr e;
              dx = fst (e_direction e2); dy = snd (e_direction e2);
              passes = (\<lambda>ax ay. e_canMoveToPosition mr e2 (e_x e + ax * e_speed e)
                                                          (e_y e + ay * e_speed e))
          in \<not> passes dx dy
             \<longrightarrow> e_x e' = e_x e \<and> e_y e' = e_y e
                \<and> e_direction e' = (if passes (- dy) dx then (- dy, dx)
                                    else if passes dy (- dx) then (dy, - dx)
                                    else if passes (- dx) (- dy) then (- dx, - dy)
                                    else (dx, dy))
                \<and> e' = e2\<lparr>e_direction := e_direction e'\<rparr>)"
proof -
  have player: "(p_x (p_handleMovement (Some r) p), p_y (p_handleMovement (Some r) p))
        = gridToWorld r (fst (worldToGrid r (p_x p) (p_y p))) (snd (worldToGrid r (p_x p) (p_y p)))
      \<and> p_direction (p_handleMovement (Some r) p) = (0, 0)"
    if "fst (p_direction p2) \<noteq> 0 \<or> snd (p_direction p2) \<noteq> 0"
      and "\<not> p_canMoveToPosition (Some r) p2 (p_x p2 + fst (p_direction p2) * p_speed p2)
                                               (p_y p2 + snd (p_direction p2) * p_speed p2)"
      and "p2 = p_tryQueuedDirection (Some r) (p_updateGridPosition (Some r) p)" for p2
    using that
    by (simp add: p_handleMovement_def Let_def snapToNearestGridCenter_def gridToWorld_def
        worldToGrid_def)
  define e2 where "e2 = e_smoothDirection mr e"
  define dx where "dx = fst (e_direction e2)"
  define dy where "dy = snd (e_direction e2)"
  define passes where "passes = (\<lambda>ax ay. e_canMoveToPosition mr e2 (e_x e + ax * e_speed e)
                                                          (e_y e + ay * e_speed e))"
  have pos: "e_x e2 = e_x e" "e_y e2 = e_y e" by (simp_all add: e2_def)
  have spd: "e_speed e2 = e_speed e"
    by (cases mr) (simp_all add: e2_def e_smoothDirection_def e_updateGridPosition_def Let_def split_beta)
  have enemy: "e_x (e_handleMovement mr e) = e_x e \<and> e_y (e_handleMovement mr e) = e_y e
      \<and> e_direction (e_handleMovement mr e) = (if passes (- dy) dx then (- dy, dx)
                                    else if passes dy (- dx) then (dy, - dx)
                                    else if passes (- dx) (- dy) then (- dx, - dy)
                                    else (dx, dy))
      \<and> e_handleMovement mr e = e2\<lparr>e_direction := e_direction (e_handleMovement mr e)\<rparr>"
    if blocked: "\<not> passes dx dy"
  proof -
    have "\<not> e_canMoveToPosition mr e2 (e_x e2 + fst (e_direction e2) * e_speed e2)
                                       (e_y e2 + snd (e_direction e2) * e_speed e2)"
      using blocked by (simp add: passes_def dx_def dy_def pos spd)
    then have hm: "e_handleMovement mr e = handleWallCollision mr e2"
      by (simp add: e_handleMovement_def Let_def e2_def)
    have first: "handleWallCollision mr e2 =
       (if passes (- dy) dx then e2\<lparr>e_direction := (- dy, dx)\<rparr>
        else if passes dy (- dx) then e2\<lparr>e_direction := (dy, - dx)\<rparr>
        else if passes (- dx) (- dy) then e2\<lparr>e_direction := (- dx, - dy)\<rparr>
        else e2)"
      unfolding handleWallCollision_first [of mr e2]
      by (simp add: Let_def passes_def dx_def dy_def pos spd e_canMoveToPosition_def)
    show ?thesis
      unfolding hm first using pos by (simp add: dx_def dy_def)
  qed
  have "\<not> passes dx dy \<longrightarrow>
        e_x (e_handleMovement mr e) = e_x e \<and> e_y (e_handleMovement mr e) = e_y e
      \<and> e_direction (e_handleMovement mr e) = (if passes (- dy) dx then (- dy, dx)
                                    else if passes dy (- dx) then (dy, - dx)
                                    else if passes (- dx) (- dy) then (- dx, - dy)
                                    else (dx, dy))
      \<and> e_handleMovement mr e = e2\<lparr>e_direction := e_direction (e_handleMovement mr e)\<rparr>"
    using enemy by (rule impI)
  then have enemy': "let e2 = e_smoothDirection mr e;
              e' = e_handleMovement mr e;
              dx = fst (e_direction e2); dy = snd (e_direction e2);
              passes = (\<lambda>ax ay. e_canMoveToPosition mr e2 (e_x e + ax * e_speed e)
                                                          (e_y e + ay * e_speed e))
          in \<not> passes dx dy
             \<longrightarrow> e_x e' = e_x e \<and> e_y e' = e_y e
                \<and> e_direction e' = (if passes (- dy) dx then (- dy, dx)
                                    else if passes dy (- dx) then (dy, - dx)
                                    else if passes (- dx) (- dy) then (- dx, - dy)
                                    else (dx, dy))
                \<and> e' = e2\<lparr>e_direction := e_direction e'\<rparr>"
    unfolding Let_def passes_def dx_def dy_def e2_def .
  have player': "let p2 = p_tryQueuedDirection (Some r) (p_updateGridPosition (Some r) p);
              p' = p_handleMovement (Some r) p
          in (fst (p_direction p2) \<noteq> 0 \<or> snd (p_direction p2) \<noteq> 0) \<and>
             \<not> p_canMoveToPosition (Some r) p2 (p_x p2 + fst (p_direction p2) * p_speed p2)
                                                (p_y p2 + snd (p_direction p2) * p_speed p2)
             \<longrightarrow> (p_x p', p_y p') = gridToWorld r (fst (worldToGrid r (p_x p) (p_y p)))
                                                  (snd (worldToGrid r (p_x p) (p_y p)))
                \<and> p_direction p' = (0, 0)"
    unfolding Let_def using player [OF _ _ refl] by blast
  show ?thesis
    using player' enemy' by (rule conjI)
qed

theorem wall_hit_resolution_witness:
  "(let p2 = p_tryQueuedDirection (Some renderer0) (p_updateGridPosition (Some renderer0) playerAtWall)
    in (fst (p_direction p2) \<noteq> 0 \<or> snd (p_direction p2) \<noteq> 0) \<and>
       \<not> p_canMoveToPosition (Some renderer0) p2 (p_x p2 + fst (p_direction p2) * p_speed p2)
                                                (p_y p2 + snd (p_direction p2) * p_speed p2))
   \<and> (p_x (p_handleMovement (Some renderer0) playerAtWall),
       p_y (p_handleMovement (Some renderer0) playerAtWall)) = (70, 50)
   \<and> p_direction (p_handleMovement (Some renderer0) playerAtWall) = (0, 0)
   \<and> (let e2 = e_smoothDirection (Some renderer0) enemyAtWall
      in \<not> e_canMoveToPosition (Some renderer0) e2
             (e_x enemyAtWall + fst (e_direction e2) * e_speed enemyAtWall)
             (e_y enemyAtWall + snd (e_direction e2) * e_speed enemyAtWall))
   \<and> e_x (e_handleMovement (Some renderer0) enemyAtWall) = 71
   \<and> e_y (e_handleMovement (Some renderer0) enemyAtWall) = 50
   \<and> e_direction (e_handleMovement (Some renderer0) enemyAtWall) = (0, 1)"
proof -
  have hp: "(let p2 = p_tryQueuedDirection (Some renderer0) (p_updateGridPosition (Some renderer0) playerAtWall)
    in (fst (p_direction p2) \<noteq> 0 \<or> snd (p_direction p2) \<noteq> 0) \<and>
       \<not> p_canMoveToPosition (Some renderer0) p2 (p_x p2 + fst (p_direction p2) * p_speed p2)
                                                (p_y p2 + snd (p_direction p2) * p_speed p2))"
    by (simp add: p_tryQueuedDirection_def p_updateGridPosition_def playerAtWall_def player0_def
        renderer0_def eval_defs)
  have g: "gridToWorld renderer0 (fst (worldToGrid renderer0 (p_x playerAtWall) (p_y playerAtWall)))
             (snd (worldToGrid renderer0 (p_x playerAtWall) (p_y playerAtWall))) = (70, 50)"
    by (simp add: playerAtWall_def player0_def renderer0_def gridToWorld_def worldToGrid_def)
  have d: "e_direction (e_smoothDirection (Some renderer0) enemyAtWall) = (1, 0)"
    by (simp add: e_smoothDirection_def e_updateGridPosition_def enemyAtWall_def enemy0_def
        Let_def split_beta)
  have sz: "e_size (e_smoothDirection (Some renderer0) enemyAtWall) = 16"
    by (simp add: e_smoothDirection_def e_updateGridPosition_def enemyAtWall_def enemy0_def
        Let_def split_beta)
  have ex: "e_x enemyAtWall = 71" "e_y enemyAtWall = 50" "e_speed enemyAtWall = 1.5"
    "e_size enemyAtWall = 16"
    by (simp_all add: enemyAtWall_def enemy0_def)
  have blocked: "\<not> canMoveToPosition (Some renderer0) 16 (145 / 2) 50"
    by (simp add: renderer0_def eval_defs)
  have left: "canMoveToPosition (Some renderer0) 16 71 (103 / 2)"
    by (simp add: renderer0_def eval_defs)
  show ?thesis
    using wall_hit_resolution [of renderer0 playerAtWall "Some renderer0" enemyAtWall] hp g
    unfolding Let_def d
    by (simp add: e_canMoveToPosition_def sz ex blocked left)
qed


subsubsection \<open>Edge wraparound\<close>

text \<open>
  C7, as stated, fails for enemies at a corner: on an open 3 by 3 grid an enemy at
  \<open>(9, 9)\<close> wraps horizontally to \<open>x = 50\<close> and, in the same call, vertically to
  \<open>y = 50\<close>.
\<close>

theorem enemy_wrap_counterexample:
  "\<not> (let e' = e_handleEdgeWrapping (Some rendererOpen) enemyAtCorner
       in e_x enemyAtCorner < cellSize rendererOpen / 2 \<and>
          e_canMoveToPosition (Some rendererOpen) enemyAtCorner
            (fst (getMazeDimensions rendererOpen) - cellSize rendererOpen / 2) (e_y enemyAtCorner)
          \<longrightarrow> e_x e' = fst (getMazeDimensions rendererOpen) - cellSize rendererOpen / 2
              \<and> e_y e' = e_y enemyAtCorner)"
  by (simp add: e_handleEdgeWrapping_def enemyAtCorner_def enemy0_def rendererOpen_def eval_defs)

lemma e_handleEdgeWrapping_horizontal:
  "e_x (e_handleEdgeWrapping (Some r) e) =
     (if e_x e < cellSize r / 2 then
        (if e_canMoveToPosition (Some r) e (fst (getMazeDimensions r) - cellSize r / 2) (e_y e)
         then fst (getMazeDimensions r) - cellSize r / 2 else e_x e)
      else if e_x e > fst (getMazeDimensions r) - cellSize r / 2 then
        (if e_canMoveToPosition (Some r) e (cellSize r / 2) (e_y e)
         then cellSize r / 2 else e_x e)
      else e_x e)"
  by (simp add: e_handleEdgeWrapping_def Let_def split_beta)

lemma e_handleEdgeWrapping_vertical:
  "e_y (e_handleEdgeWrapping (Some r) e) =
     (let x' = e_x (e_handleEdgeWrapping (Some r) e)
      in if e_y e < cellSize r / 2 then
           (if e_canMoveToPosition (Some r) e x' (snd (getMazeDimensions r) - cellSize r / 2)
            then snd (getMazeDimensions r) - cellSize r / 2 else e_y e)
         else if e_y e > snd (getMazeDimensions r) - cellSize r / 2 then
           (if e_canMoveToPosition (Some r) e x' (cellSize r / 2)
            then cellSize r / 2 else e_y e)
         else e_y e)"
  by (simp add: e_handleEdgeWrapping_def Let_def split_beta e_canMoveToPosition_def)

text \<open>
  What one call of \<open>Player.handleEdgeWrapping\<close> does, in closed form: the corner block
  repeats the two tests on an unchanged player and so changes nothing.
\<close>

lemma p_handleEdgeWrapping_eq:
  "p_handleEdgeWrapping (Some r) p =
     (let width = fst (getMazeDimensions r); height = snd (getMazeDimensions r); cs = cellSize r;
          mirrorX = (if p_x p < cs / 2 then width - cs / 2 else cs / 2);
          mirrorY = (if p_y p < cs / 2 then height - cs / 2 else cs / 2)
      in if (p_x p < cs / 2 \<or> p_x p > width - cs / 2)
            \<and> p_canMoveToPosition (Some r) p mirrorX (p_y p)
         then p\<lparr>p_x := mirrorX\<rparr>
         else if (p_y p < cs / 2 \<or> p_y p > height - cs / 2)
                 \<and> p_canMoveToPosition (Some r) p (p_x p) mirrorY
         then p\<lparr>p_y := mirrorY\<rparr>
         else p)"
proof -
  obtain p1 w1 where h: "p_wrapHorizontal r p = (p1, w1)" by (cases "p_wrapHorizontal r p")
  obtain p2 w2 where v: "p_wrapVertical r p = (p2, w2)" by (cases "p_wrapVertical r p")
  have H: "(p1, w1) =
     (if p_x p < cellSize r / 2 then
        (if p_canMoveToPosition (Some r) p (fst (getMazeDimensions r) - cellSize r / 2) (p_y p)
         then (p\<lparr>p_x := fst (getMazeDimensions r) - cellSize r / 2\<rparr>, True) else (p, False))
      else if p_x p > fst (getMazeDimensions r) - cellSize r / 2 then
        (if p_canMoveToPosition (Some r) p (cellSize r / 2) (p_y p)
         then (p\<lparr>p_x := cellSize r / 2\<rparr>, True) else (p, False))
      else (p, False))"
    unfolding h [symmetric] by (simp add: p_wrapHorizontal_def Let_def split_beta)
  have V: "(p2, w2) =
     (if p_y p < cellSize r / 2 then
        (if p_canMoveToPosition (Some r) p (p_x p) (snd (getMazeDimensions r) - cellSize r / 2)
         then (p\<lparr>p_y := snd (getMazeDimensions r) - cellSize r / 2\<rparr>, True) else (p, False))
      else if p_y p > snd (getMazeDimensions r) - cellSize r / 2 then
        (if p_canMoveToPosition (Some r) p (p_x p) (cellSize r / 2)
         then (p\<lparr>p_y := cellSize r / 2\<rparr>, True) else (p, False))
      else (p, False))"
    unfolding v [symmetric] by (simp add: p_wrapVertical_def Let_def split_beta)
  show ?thesis
  proof (cases w1)
    case True
    then have "p_handleEdgeWrapping (Some r) p = p1"
      using h by (simp add: p_handleEdgeWrapping_def Let_def split_beta)
    then show ?thesis using H True by (auto simp add: Let_def split: if_splits)
  next
    case nw1: False
    then have p1: "p1 = p" using H by (auto split: if_splits)
    show ?thesis
    proof (cases w2)
      case True
      then have "p_handleEdgeWrapping (Some r) p = p2"
        using h v nw1 p1 by (simp add: p_handleEdgeWrapping_def Let_def split_beta)
      then show ?thesis using H V True nw1 by (auto simp add: Let_def split: if_splits)
    next
      case False
      then have p2: "p2 = p" using V by (auto split: if_splits)
      have "p_handleEdgeWrapping (Some r) p = p"
        using h v nw1 p1 False p2 by (simp add: p_handleEdgeWrapping_def Let_def split_beta)
      then show ?thesis using H V False nw1 by (auto simp add: Let_def split: if_splits)
    qed
  qed
qed

text \<open>
  C7, amended. A call of \<open>handleEdgeWrapping\<close> moves an agent only to a mirrored
  position: \<open>x\<close> becomes \<open>mazeWidth - cellSize / 2\<close> from beyond the left boundary and
  \<open>cellSize / 2\<close> from beyond the right one, and likewise \<open>y\<close>; a coordinate changes
  only if the agent with that coordinate mirrored passes the four-corner test. The
  horizontal wrap is evaluated first. For the player a horizontal wrap that succeeds
  excludes the vertical one (\<open>y\<close> is unchanged, also at a corner), and the vertical wrap
  is taken only if the horizontal one does not apply or fails. For an enemy the vertical
  wrap is evaluated whatever the horizontal one did, at the \<open>x\<close> the horizontal one left,
  so at a corner an enemy can wrap on both axes in one call. Nothing but the position
  changes.
\<close>

theorem edge_wraparound:
  shows "(let p' = p_handleEdgeWrapping (Some r) p;
              width = fst (getMazeDimensions r); height = snd (getMazeDimensions r);
              cs = cellSize r;
              mirrorX = (if p_x p < cs / 2 then width - cs / 2 else cs / 2);
              mirrorY = (if p_y p < cs / 2 then height - cs / 2 else cs / 2)
          in p' = (if (p_x p < cs / 2 \<or> p_x p > width - cs / 2)
                      \<and> p_canMoveToPosition (Some r) p mirrorX (p_y p)
                   then p\<lparr>p_x := mirrorX\<rparr>
                   else if (p_y p < cs / 2 \<or> p_y p > height - cs / 2)
                           \<and> p_canMoveToPosition (Some r) p (p_x p) mirrorY
                   then p\<lparr>p_y := mirrorY\<rparr>
                   else p)
           \<and> ((p_x p', p_y p') \<noteq> (p_x p, p_y p) \<longrightarrow>
                p_canMoveToPosition (Some r) p (p_x p') (p_y p'))
           \<and> (p_x p < cs / 2 \<and> p_canMoveToPosition (Some r) p (width - cs / 2) (p_y p) \<longrightarrow>
                p_x p' = width - cs / 2 \<and> p_y p' = p_y p)
           \<and> (p_x p' \<noteq> p_x p \<longrightarrow> p_y p' = p_y p))
       \<and> (let e' = e_handleEdgeWrapping (Some r) e;
              width = fst (getMazeDimensions r); height = snd (getMazeDimensions r);
              cs = cellSize r;
              mirrorX = (if e_x e < cs / 2 then width - cs / 2 else cs / 2);
              mirrorY = (if e_y e < cs / 2 then height - cs / 2 else cs / 2);
              x' = (if (e_x e < cs / 2 \<or> e_x e > width - cs / 2)
                       \<and> e_canMoveToPosition (Some r) e mirrorX (e_y e)
                    then mirrorX else e_x e);
              y' = (if (e_y e < cs / 2 \<or> e_y e > height - cs / 2)
                       \<and> e_canMoveToPosition (Some r) e x' mirrorY
                    then mirrorY else e_y e)
          in e' = e\<lparr>e_x := x', e_y := y'\<rparr>
           \<and> (e_x e' \<noteq> e_x e \<longrightarrow> e_canMoveToPosition (Some r) e (e_x e') (e_y e))
           \<and> (e_y e' \<noteq> e_y e \<longrightarrow> e_canMoveToPosition (Some r) e (e_x e') (e_y e'))
           \<and> (e_x e < cs / 2 \<and> e_canMoveToPosition (Some r) e (width - cs / 2) (e_y e) \<longrightarrow>
                e_x e' = width - cs / 2
              \<and> (cs / 2 \<le> e_y e \<and> e_y e \<le> height - cs / 2 \<longrightarrow> e_y e' = e_y e)))"
proof -
  let ?p' = "p_handleEdgeWrapping (Some r) p"
  let ?w = "fst (getMazeDimensions r)" and ?h = "snd (getMazeDimensions r)"
  let ?cs = "cellSize r"
  have p0: "?p' = (if (p_x p < ?cs / 2 \<or> p_x p > ?w - ?cs / 2)
                      \<and> p_canMoveToPosition (Some r) p
                           (if p_x p < ?cs / 2 then ?w - ?cs / 2 else ?cs / 2) (p_y p)
                   then p\<lparr>p_x := (if p_x p < ?cs / 2 then ?w - ?cs / 2 else ?cs / 2)\<rparr>
                   else if (p_y p < ?cs / 2 \<or> p_y p > ?h - ?cs / 2)
                           \<and> p_canMoveToPosition (Some r) p (p_x p)
                                (if p_y p < ?cs / 2 then ?h - ?cs / 2 else ?cs / 2)
                   then p\<lparr>p_y := (if p_y p < ?cs / 2 then ?h - ?cs / 2 else ?cs / 2)\<rparr>
                   else p)"
    using p_handleEdgeWrapping_eq [of r p] unfolding Let_def .
  from p_handleEdgeWrapping_cases [OF refl, of r p]
  consider (same) "?p' = p"
    | (hor) "p_y ?p' = p_y p" "p_canMoveToPosition (Some r) p (p_x ?p') (p_y p)"
    | (ver) "p_x ?p' = p_x p" "p_canMoveToPosition (Some r) p (p_x p) (p_y ?p')"
    by (metis player.select_convs(1,2) player.surjective player.update_convs(1,2))
  then have p1: "(p_x ?p', p_y ?p') \<noteq> (p_x p, p_y p) \<longrightarrow>
      p_canMoveToPosition (Some r) p (p_x ?p') (p_y ?p')"
    and p3: "p_x ?p' \<noteq> p_x p \<longrightarrow> p_y ?p' = p_y p"
    by (cases; simp)+
  have p2: "p_x ?p' = ?w - ?cs / 2 \<and> p_y ?p' = p_y p"
    if "p_x p < ?cs / 2" "p_canMoveToPosition (Some r) p (?w - ?cs / 2) (p_y p)"
    using p_wrapHorizontal_left [OF that]
    by (simp add: p_handleEdgeWrapping_def Let_def split_beta)
  have player: "?p' = (if (p_x p < ?cs / 2 \<or> p_x p > ?w - ?cs / 2)
                      \<and> p_canMoveToPosition (Some r) p
                           (if p_x p < ?cs / 2 then ?w - ?cs / 2 else ?cs / 2) (p_y p)
                   then p\<lparr>p_x := (if p_x p < ?cs / 2 then ?w - ?cs / 2 else ?cs / 2)\<rparr>
                   else if (p_y p < ?cs / 2 \<or> p_y p > ?h - ?cs / 2)
                           \<and> p_canMoveToPosition (Some r) p (p_x p)
                                (if p_y p < ?cs / 2 then ?h - ?cs / 2 else ?cs / 2)
                   then p\<lparr>p_y := (if p_y p < ?cs / 2 then ?h - ?cs / 2 else ?cs / 2)\<rparr>
                   else p)
           \<and> ((p_x ?p', p_y ?p') \<noteq> (p_x p, p_y p) \<longrightarrow>
                p_canMoveToPosition (Some r) p (p_x ?p') (p_y ?p'))
           \<and> (p_x p < ?cs / 2 \<and> p_canMoveToPosition (Some r) p (?w - ?cs / 2) (p_y p) \<longrightarrow>
                p_x ?p' = ?w - ?cs / 2 \<and> p_y ?p' = p_y p)
           \<and> (p_x ?p' \<noteq> p_x p \<longrightarrow> p_y ?p' = p_y p)"
    using p0 p1 p2 p3 by blast
  let ?e' = "e_handleEdgeWrapping (Some r) e"
  let ?x' = "if (e_x e < ?cs / 2 \<or> e_x e > ?w - ?cs / 2)
                \<and> e_canMoveToPosition (Some r) e
                     (if e_x e < ?cs / 2 then ?w - ?cs / 2 else ?cs / 2) (e_y e)
             then (if e_x e < ?cs / 2 then ?w - ?cs / 2 else ?cs / 2) else e_x e"
  let ?y' = "if (e_y e < ?cs / 2 \<or> e_y e > ?h - ?cs / 2)
                \<and> e_canMoveToPosition (Some r) e ?x'
                     (if e_y e < ?cs / 2 then ?h - ?cs / 2 else ?cs / 2)
             then (if e_y e < ?cs / 2 then ?h - ?cs / 2 else ?cs / 2) else e_y e"
  have ex: "e_x ?e' = ?x'"
    unfolding e_handleEdgeWrapping_horizontal by simp
  have ey: "e_y ?e' = ?y'"
    using e_handleEdgeWrapping_vertical [of r e] unfolding Let_def ex by simp
  have rest: "?e' = e\<lparr>e_x := e_x ?e', e_y := e_y ?e'\<rparr>"
    by (simp add: e_handleEdgeWrapping_def Let_def split_beta)
  have e0: "?e' = e\<lparr>e_x := ?x', e_y := ?y'\<rparr>"
    using rest unfolding ex ey .
  have e1: "e_x ?e' \<noteq> e_x e \<longrightarrow> e_canMoveToPosition (Some r) e (e_x ?e') (e_y e)"
    unfolding e_handleEdgeWrapping_horizontal by simp
  have e2: "e_y ?e' \<noteq> e_y e \<longrightarrow> e_canMoveToPosition (Some r) e (e_x ?e') (e_y ?e')"
    using e_handleEdgeWrapping_vertical [of r e] by (auto simp: Let_def split: if_splits)
  have e3: "e_x ?e' = ?w - ?cs / 2"
    if "e_x e < ?cs / 2" "e_canMoveToPosition (Some r) e (?w - ?cs / 2) (e_y e)"
    using that by (simp add: e_handleEdgeWrapping_horizontal)
  have e4: "e_y ?e' = e_y e"
    if "?cs / 2 \<le> e_y e" "e_y e \<le> ?h - ?cs / 2"
    using that e_handleEdgeWrapping_vertical [of r e] by (simp add: Let_def)
  have enemy: "?e' = e\<lparr>e_x := ?x', e_y := ?y'\<rparr>
           \<and> (e_x ?e' \<noteq> e_x e \<longrightarrow> e_canMoveToPosition (Some r) e (e_x ?e') (e_y e))
           \<and> (e_y ?e' \<noteq> e_y e \<longrightarrow> e_canMoveToPosition (Some r) e (e_x ?e') (e_y ?e'))
           \<and> (e_x e < ?cs / 2 \<and> e_canMoveToPosition (Some r) e (?w - ?cs / 2) (e_y e) \<longrightarrow>
                e_x ?e' = ?w - ?cs / 2
              \<and> (?cs / 2 \<le> e_y e \<and> e_y e \<le> ?h - ?cs / 2 \<longrightarrow> e_y ?e' = e_y e))"
    using e0 e1 e2 e3 e4 by blast
  show ?thesis
    unfolding Let_def using player enemy by (rule conjI)
qed

definition enemyAtLeft :: enemy where
  "enemyAtLeft = enemy0\<lparr>e_x := 9, e_y := 30\<rparr>"

definition playerAtRight :: player where
  "playerAtRight = player0\<lparr>p_x := 51, p_y := 9\<rparr>"

theorem edge_wraparound_witness:
  "p_x playerAtCorner < cellSize rendererOpen / 2
   \<and> p_y playerAtCorner < cellSize rendererOpen / 2
   \<and> p_canMoveToPosition (Some rendererOpen) playerAtCorner
        (fst (getMazeDimensions rendererOpen) - cellSize rendererOpen / 2) (p_y playerAtCorner)
   \<and> p_x (p_handleEdgeWrapping (Some rendererOpen) playerAtCorner) = 50
   \<and> p_y (p_handleEdgeWrapping (Some rendererOpen) playerAtCorner) = 9
   \<and> p_x playerAtRight > fst (getMazeDimensions rendererOpen) - cellSize rendererOpen / 2
   \<and> p_y playerAtRight < cellSize rendererOpen / 2
   \<and> p_canMoveToPosition (Some rendererOpen) playerAtRight
        (cellSize rendererOpen / 2) (p_y playerAtRight)
   \<and> p_handleEdgeWrapping (Some rendererOpen) playerAtRight = playerAtRight\<lparr>p_x := 10\<rparr>
   \<and> e_x enemyAtLeft < cellSize rendererOpen / 2
   \<and> e_canMoveToPosition (Some rendererOpen) enemyAtLeft
        (fst (getMazeDimensions rendererOpen) - cellSize rendererOpen / 2) (e_y enemyAtLeft)
   \<and> e_x (e_handleEdgeWrapping (Some rendererOpen) enemyAtLeft) = 50
   \<and> e_y (e_handleEdgeWrapping (Some rendererOpen) enemyAtLeft) = 30"
proof -
  have hp: "p_x playerAtCorner < cellSize rendererOpen / 2"
    "p_y playerAtCorner < cellSize rendererOpen / 2"
    "p_canMoveToPosition (Some rendererOpen) playerAtCorner
        (fst (getMazeDimensions rendererOpen) - cellSize rendererOpen / 2) (p_y playerAtCorner)"
    by (simp_all add: playerAtCorner_def player0_def rendererOpen_def eval_defs)
  have hr: "p_x playerAtRight > fst (getMazeDimensions rendererOpen) - cellSize rendererOpen / 2"
    "\<not> p_x playerAtRight < cellSize rendererOpen / 2"
    "p_y playerAtRight < cellSize rendererOpen / 2"
    "p_canMoveToPosition (Some rendererOpen) playerAtRight
        (cellSize rendererOpen / 2) (p_y playerAtRight)"
    "cellSize rendererOpen / 2 = 10"
    by (simp_all add: playerAtRight_def player0_def rendererOpen_def eval_defs)
  have he: "e_x enemyAtLeft < cellSize rendererOpen / 2"
    "e_canMoveToPosition (Some rendererOpen) enemyAtLeft
        (fst (getMazeDimensions rendererOpen) - cellSize rendererOpen / 2) (e_y enemyAtLeft)"
    "cellSize rendererOpen / 2 \<le> e_y enemyAtLeft"
    "e_y enemyAtLeft \<le> snd (getMazeDimensions rendererOpen) - cellSize rendererOpen / 2"
    by (simp_all add: enemyAtLeft_def enemy0_def rendererOpen_def eval_defs)
  have vals: "fst (getMazeDimensions rendererOpen) - cellSize rendererOpen / 2 = 50"
    "p_y playerAtCorner = 9" "e_y enemyAtLeft = 30"
    by (simp_all add: getMazeDimensions_def rendererOpen_def playerAtCorner_def enemyAtLeft_def)
  have corner: "p_x (p_handleEdgeWrapping (Some rendererOpen) playerAtCorner) = 50
      \<and> p_y (p_handleEdgeWrapping (Some rendererOpen) playerAtCorner) = 9"
    using edge_wraparound [of rendererOpen playerAtCorner enemyAtLeft] hp vals
    unfolding Let_def by simp
  have left: "e_x (e_handleEdgeWrapping (Some rendererOpen) enemyAtLeft) = 50
      \<and> e_y (e_handleEdgeWrapping (Some rendererOpen) enemyAtLeft) = 30"
    using edge_wraparound [of rendererOpen playerAtCorner enemyAtLeft] he vals
    unfolding Let_def by simp
  have right: "p_handleEdgeWrapping (Some rendererOpen) playerAtRight = playerAtRight\<lparr>p_x := 10\<rparr>"
    using edge_wraparound [of rendererOpen playerAtRight enemyAtLeft] hr
    unfolding Let_def by simp
  show ?thesis
    using hp hr(1,3,4) he(1,2) corner left right by blast
qed

theorem no_wall_penetration_witness:
  "0 < cellSize renderer0 \<and> 0 \<le> p_size player0 \<and> p_size player0 < cellSize renderer0
   \<and> p_canMoveToPosition (Some renderer0) player0 (p_x player0) (p_y player0)
   \<and> e_canMoveToPosition (Some renderer0) enemy0 (e_x enemy0) (e_y enemy0)
   \<and> (let p' = playerTicks (Some renderer0) [(Some ''right'', 16), (None, 16), (Some ''up'', 16)] player0
      in p_canMoveToPosition (Some renderer0) p' (p_x p') (p_y p'))
   \<and> (let e' = enemyTicks (Some renderer0) [(16, (1, 0)), (16, (0, 1))] enemy0
      in e_canMoveToPosition (Some renderer0) e' (e_x e') (e_y e'))"
proof -
  have a: "0 < cellSize r \<and> 0 \<le> p_size player0 \<and> p_size player0 < cellSize r"
    if "Some renderer0 = Some r" for r
    using that by (auto simp: renderer0_def player0_def)
  have b: "p_canMoveToPosition (Some renderer0) player0 (p_x player0) (p_y player0)"
    by (simp add: player0_def renderer0_def eval_defs)
  have c: "e_canMoveToPosition (Some renderer0) enemy0 (e_x enemy0) (e_y enemy0)"
    by (simp add: enemy0_def renderer0_def eval_defs)
  have d: "0 < cellSize renderer0 \<and> 0 \<le> p_size player0 \<and> p_size player0 < cellSize renderer0"
    using a by blast
  show ?thesis
    using no_wall_penetration [OF a b c] b c d by blast
qed


subsection \<open>Enemy roster (AIController.js)\<close>

definition setBehaviorByType :: "string \<Rightarrow> enemy \<Rightarrow> enemy" where
  "setBehaviorByType ty e =
     (let e1 = (if ty = ''chaser'' then
                  e\<lparr>e_speed := 1.8, e_color := ''#FF0000'', pathUpdateInterval := 300\<rparr>
                else if ty = ''ambusher'' then
                  e\<lparr>e_speed := 1.6, e_color := ''#FFB6C1'', pathUpdateInterval := 600\<rparr>
                else if ty = ''patrol'' then
                  e\<lparr>e_speed := 1.4, e_color := ''#00FFFF'', pathUpdateInterval := 800\<rparr>
                else if ty = ''random'' then
                  e\<lparr>e_speed := 1.3, e_color := ''#FFA500'', pathUpdateInterval := 1000\<rparr>
                else
                  e\<lparr>e_speed := 1.5, e_color := ''#FF69B4'', pathUpdateInterval := 500\<rparr>)
      in e1\<lparr>originalColor := e_color e1\<rparr>)"

text \<open>The constructor \<open>new Enemy(x, y, mazeRenderer, type)\<close>.\<close>

definition Enemy :: "real \<Rightarrow> real \<Rightarrow> renderer option \<Rightarrow> string \<Rightarrow> enemy" where
  "Enemy x y mr ty =
     e_updateGridPosition mr
       (setBehaviorByType ty
          \<lparr>e_x = x, e_y = y, e_size = 16, e_speed = 1.5, e_direction = (0, 0),
           targetDirection = (0, 0), e_gridX = 0, e_gridY = 0, e_isAtIntersection = True,
           e_type = ty, e_state = ''chase'', e_path = [], pathIndex = 0,
           lastPathUpdate = 0, pathUpdateInterval = 500, isVulnerable = False,
           vulnerabilityTimer = 0, vulnerabilityDuration = 10000, originalSpeed = None,
           e_color = '''', originalColor = ''''\<rparr>)"

definition setSpeed :: "real \<Rightarrow> enemy \<Rightarrow> enemy" where
  "setSpeed s e = e\<lparr>e_speed := max 0 s\<rparr>"

text \<open>
  The roster \<open>this.enemies\<close> holds references to enemy objects. A reference is a number,
  kept with the object's state; \<open>nextRef\<close> is the allocator of \<open>new Enemy\<close> and is not a
  field of the source. \<open>Date.now()\<close> bookkeeping (\<open>vulnerabilityEndTime\<close>) is left out.
\<close>

type_synonym ref = nat

record aiController =
  enemies :: "(ref \<times> enemy) list"
  ai_mazeRenderer :: "renderer option"
  maxEnemies :: int
  spawnDelay :: real
  lastSpawnTime :: real
  enemiesSpawned :: nat
  difficultyLevel :: int
  baseEnemySpeed :: real
  speedIncreasePerLevel :: real
  spawnPositions :: "vec list"
  isActive :: bool
  playerLastPosition :: vec
  playerDirection :: vec
  nextRef :: ref

definition enemyTypes :: "(string \<times> real) list" where
  "enemyTypes = [(''chaser'', 0.3), (''ambusher'', 0.25), (''patrol'', 0.25), (''random'', 0.2)]"

definition updatePlayerTracking :: "vec \<Rightarrow> aiController \<Rightarrow> aiController" where
  "updatePlayerTracking playerPosition c =
     (let dx = fst playerPosition - fst (playerLastPosition c);
          dy = snd playerPosition - snd (playerLastPosition c);
          len = sqrt (dx\<^sup>2 + dy\<^sup>2);
          d = (if len > 0 then (dx / len, dy / len) else (dx, dy))
      in c\<lparr>playerDirection := d, playerLastPosition := playerPosition\<rparr>)"

text \<open>
  \<open>calculateSpawnPositions\<close>: eight candidates filtered to non-wall positions; when none
  is left, the four points of a ring around the centre at angles \<open>0, \<pi>/2, \<pi>, 3\<pi>/2\<close>.
\<close>

definition calculateSpawnPositions :: "aiController \<Rightarrow> aiController" where
  "calculateSpawnPositions c =
     (case ai_mazeRenderer c of
        None \<Rightarrow> c
      | Some r \<Rightarrow>
          (let (width, height) = getMazeDimensions r; cs = cellSize r;
               potentialSpawns =
                 [(cs * 2, cs * 2), (width - cs * 2, cs * 2), (cs * 2, height - cs * 2),
                  (width - cs * 2, height - cs * 2),
                  (width / 2, cs * 2), (width / 2, height - cs * 2),
                  (cs * 2, height / 2), (width - cs * 2, height / 2)];
               valid = filter (\<lambda>(x, y). \<not> isWallAtPosition r x y) potentialSpawns
           in if valid = [] then
                (let centerX = width / 2; centerY = height / 2;
                     radius = min width height / 4;
                     ring = map (\<lambda>angle. (centerX + cos angle * radius, centerY + sin angle * radius))
                                [0, pi / 2, pi, 3 * pi / 2]
                 in c\<lparr>spawnPositions := filter (\<lambda>(x, y). \<not> isWallAtPosition r x y) ring\<rparr>)
              else c\<lparr>spawnPositions := valid\<rparr>))"

text \<open>\<open>selectEnemyType\<close>; \<open>random\<close> is the value drawn from \<open>Math.random()\<close>.\<close>

fun selectEnemyTypeLoop :: "real \<Rightarrow> real \<Rightarrow> (string \<times> real) list \<Rightarrow> string option" where
  "selectEnemyTypeLoop random cumulativeProbability [] = None"
| "selectEnemyTypeLoop random cumulativeProbability ((ty, probability) # rest) =
     (let cumulativeProbability' = cumulativeProbability + probability
      in if random \<le> cumulativeProbability' then Some ty
         else selectEnemyTypeLoop random cumulativeProbability' rest)"

definition selectEnemyType :: "real \<Rightarrow> string" where
  "selectEnemyType random =
     (case selectEnemyTypeLoop random 0 enemyTypes of
        Some ty \<Rightarrow> ty
      | None \<Rightarrow> fst (hd enemyTypes))"

definition applyDifficultyScaling :: "aiController \<Rightarrow> enemy \<Rightarrow> enemy" where
  "applyDifficultyScaling c e =
     (let scaledSpeed = baseEnemySpeed c + (of_int (difficultyLevel c) - 1) * speedIncreasePerLevel c;
          e1 = setSpeed scaledSpeed e
      in if difficultyLevel c > 3
         then e1\<lparr>pathUpdateInterval := max 200 (pathUpdateInterval e1 - 50)\<rparr>
         else e1)"

definition spawnEnemy :: "real \<Rightarrow> aiController \<Rightarrow> aiController" where
  "spawnEnemy random c =
     (case ai_mazeRenderer c of
        None \<Rightarrow> c
      | Some r \<Rightarrow>
          (let c1 = (if spawnPositions c = [] then calculateSpawnPositions c else c)
           in if spawnPositions c1 = [] then c1
              else
                (let (sx, sy) = spawnPositions c1 ! (enemiesSpawned c1 mod length (spawnPositions c1));
                     enemyType = selectEnemyType random;
                     enemy = applyDifficultyScaling c1 (Enemy sx sy (ai_mazeRenderer c1) enemyType)
                 in c1\<lparr>enemies := enemies c1 @ [(nextRef c1, enemy)],
                        enemiesSpawned := Suc (enemiesSpawned c1),
                        nextRef := Suc (nextRef c1)\<rparr>)))"

definition updateEnemySpawning :: "real \<Rightarrow> real \<Rightarrow> aiController \<Rightarrow> aiController" where
  "updateEnemySpawning random deltaTime c =
     (let c1 = c\<lparr>lastSpawnTime := lastSpawnTime c + deltaTime\<rparr>
      in if int (length (enemies c1)) < maxEnemies c1 \<and>
            lastSpawnTime c1 \<ge> spawnDelay c1 \<and>
            int (enemiesSpawned c1) < maxEnemies c1
         then (spawnEnemy random c1)\<lparr>lastSpawnTime := 0\<rparr>
         else c1)"

definition isEnemyOutOfBounds :: "aiController \<Rightarrow> enemy \<Rightarrow> bool" where
  "isEnemyOutOfBounds c e =
     (case ai_mazeRenderer c of
        None \<Rightarrow> False
      | Some r \<Rightarrow>
          (let (width, height) = getMazeDimensions r; buffer = 100
           in e_x e < - buffer \<or> e_x e > width + buffer \<or>
              e_y e < - buffer \<or> e_y e > height + buffer))"

text \<open>
  The loop of \<open>update\<close> over the roster, from the last index down:
  \<open>enemy.update(...)\<close>, then \<open>splice(i, 1)\<close> when the enemy is out of bounds. The
  direction that the enemy's planner leaves in \<open>targetDirection\<close> is \<open>planner e\<close>.
\<close>

fun updateEnemies ::
  "(enemy \<Rightarrow> vec) \<Rightarrow> real \<Rightarrow> aiController \<Rightarrow> nat \<Rightarrow> (ref \<times> enemy) list \<Rightarrow> (ref \<times> enemy) list" where
  "updateEnemies planner deltaTime c 0 es = es"
| "updateEnemies planner deltaTime c (Suc i) es =
     (let (k, e) = es ! i;
          e' = e_update (ai_mazeRenderer c) deltaTime (planner e) e;
          es1 = es[i := (k, e')];
          es2 = (if isEnemyOutOfBounds c e' then take i es1 @ drop (Suc i) es1 else es1)
      in updateEnemies planner deltaTime c i es2)"

definition ai_update ::
  "(enemy \<Rightarrow> vec) \<Rightarrow> real \<Rightarrow> real \<Rightarrow> vec \<Rightarrow> aiController \<Rightarrow> aiController" where
  "ai_update planner random deltaTime playerPosition c =
     (if \<not> isActive c then c
      else
        (let c1 = updatePlayerTracking playerPosition c;
             c2 = updateEnemySpawning random deltaTime c1
         in c2\<lparr>enemies := updateEnemies planner deltaTime c2 (length (enemies c2)) (enemies c2)\<rparr>))"

definition setAllEnemiesVulnerable :: "bool \<Rightarrow> real \<Rightarrow> aiController \<Rightarrow> aiController" where
  "setAllEnemiesVulnerable vulnerable duration c =
     c\<lparr>enemies := map (\<lambda>(k, e). if isVulnerable e \<noteq> vulnerable
                                  then (k, setVulnerable vulnerable (Some duration) e)
                                  else (k, e)) (enemies c)\<rparr>"

definition checkPlayerCollisions :: "aiController \<Rightarrow> vec \<Rightarrow> real \<Rightarrow> (ref \<times> enemy) list" where
  "checkPlayerCollisions c playerPosition playerSize =
     filter (\<lambda>(k, e).
        (let dx = fst playerPosition - e_x e; dy = snd playerPosition - e_y e;
             distance = sqrt (dx * dx + dy * dy);
             collisionDistance = (playerSize + e_size e) / 2
         in distance < collisionDistance)) (enemies c)"

text \<open>\<open>removeEnemy\<close>: \<open>indexOf\<close> finds the first entry that is the same object.\<close>

fun removeRef :: "ref \<Rightarrow> (ref \<times> enemy) list \<Rightarrow> (ref \<times> enemy) list" where
  "removeRef k [] = []"
| "removeRef k ((k', e) # es) = (if k' = k then es else (k', e) # removeRef k es)"

definition removeEnemy :: "ref \<Rightarrow> aiController \<Rightarrow> bool \<times> aiController" where
  "removeEnemy k c =
     (if k \<in> fst ` set (enemies c) then (True, c\<lparr>enemies := removeRef k (enemies c)\<rparr>)
      else (False, c))"

definition setDifficultyLevel :: "int \<Rightarrow> aiController \<Rightarrow> aiController" where
  "setDifficultyLevel level c =
     c\<lparr>difficultyLevel := max 1 level,
       maxEnemies := min 6 (4 + level div 3),
       spawnDelay := max 1000 (2000 - (of_int level - 1) * 100)\<rparr>"

definition ai_reset :: "aiController \<Rightarrow> aiController" where
  "ai_reset c = c\<lparr>enemies := [], enemiesSpawned := 0, lastSpawnTime := 0, spawnPositions := [],
                  playerLastPosition := (0, 0), playerDirection := (0, 0)\<rparr>"

definition setActive :: "bool \<Rightarrow> aiController \<Rightarrow> aiController" where
  "setActive active c =
     (let c1 = c\<lparr>isActive := active\<rparr>
      in if \<not> active
         then c1\<lparr>enemies := map (\<lambda>(k, e). (k, e\<lparr>e_direction := (0, 0), targetDirection := (0, 0)\<rparr>))
                                 (enemies c1)\<rparr>
         else c1)"

text \<open>The constructor \<open>new AIController(mazeRenderer)\<close>.\<close>

definition AIController :: "renderer option \<Rightarrow> aiController" where
  "AIController mr =
     \<lparr>enemies = [], ai_mazeRenderer = mr, maxEnemies = 4, spawnDelay = 2000, lastSpawnTime = 0,
      enemiesSpawned = 0, difficultyLevel = 1, baseEnemySpeed = 1.5, speedIncreasePerLevel = 0.1,
      spawnPositions = [], isActive = True, playerLastPosition = (0, 0),
      playerDirection = (0, 0), nextRef = 0\<rparr>"

text \<open>
  What can happen to a controller within a level: a tick of \<open>update\<close> (with the value
  drawn from \<open>Math.random()\<close>, the elapsed time and the player position), the removal of
  an enemy, and a vulnerability broadcast.
\<close>

datatype ai_event =
    Update real real vec
  | RemoveEnemy ref
  | SetAllEnemiesVulnerable bool real

fun ai_step :: "(enemy \<Rightarrow> vec) \<Rightarrow> ai_event \<Rightarrow> aiController \<Rightarrow> aiController" where
  "ai_step planner (Update random deltaTime playerPosition) c =
     ai_update planner random deltaTime playerPosition c"
| "ai_step planner (RemoveEnemy k) c = snd (removeEnemy k c)"
| "ai_step planner (SetAllEnemiesVulnerable v d) c = setAllEnemiesVulnerable v d c"

fun ai_run :: "(enemy \<Rightarrow> vec) \<Rightarrow> ai_event list \<Rightarrow> aiController \<Rightarrow> aiController" where
  "ai_run planner [] c = c"
| "ai_run planner (ev # evs) c = ai_run planner evs (ai_step planner ev c)"

definition rosterInv :: "int \<Rightarrow> ref \<Rightarrow> aiController \<Rightarrow> bool" where
  "rosterInv M n0 c \<longleftrightarrow>
     maxEnemies c = M \<and> length (enemies c) \<le> enemiesSpawned c \<and> int (enemiesSpawned c) \<le> M
     \<and> nextRef c = n0 + enemiesSpawned c
     \<and> fst ` set (enemies c) \<subseteq> {n0 ..< n0 + enemiesSpawned c}"

lemma updateEnemies_shrinks:
  "i \<le> length es \<Longrightarrow>
     length (updateEnemies planner dt c i es) \<le> length es
     \<and> fst ` set (updateEnemies planner dt c i es) \<subseteq> fst ` set es"
proof (induction i arbitrary: es)
  case 0
  then show ?case by simp
next
  case (Suc i)
  obtain k e where ke: "es ! i = (k, e)" by (cases "es ! i")
  define e' where "e' = e_update (ai_mazeRenderer c) dt (planner e) e"
  define es1 where "es1 = es[i := (k, e')]"
  define es2 where "es2 = (if isEnemyOutOfBounds c e' then take i es1 @ drop (Suc i) es1 else es1)"
  have i: "i < length es" using Suc.prems by simp
  have "map fst es1 = (map fst es)[i := k]"
    by (simp add: es1_def map_update)
  also have "\<dots> = map fst es"
    using i ke by (metis fst_conv list_update_id nth_map)
  finally have fst1: "map fst es1 = map fst es" .
  have set1: "fst ` set es1 = fst ` set es"
    using fst1 by (metis set_map)
  have "set (take i es1) \<subseteq> set es1" "set (drop (Suc i) es1) \<subseteq> set es1"
    by (rule set_take_subset, rule set_drop_subset)
  then have "set es2 \<subseteq> set es1"
    by (auto simp: es2_def)
  then have set2: "fst ` set es2 \<subseteq> fst ` set es"
    using set1 by blast
  have len1: "length es1 = length es" by (simp add: es1_def)
  have len2: "i \<le> length es2" "length es2 \<le> length es"
    using i len1 by (auto simp: es2_def)
  have step: "updateEnemies planner dt c (Suc i) es = updateEnemies planner dt c i es2"
    by (simp add: ke Let_def es2_def es1_def e'_def)
  from Suc.IH [OF len2(1)] len2(2) set2
  show ?case
    unfolding step by (meson dual_order.trans)
qed

lemma calculateSpawnPositions_fields [simp]:
  "enemies (calculateSpawnPositions c) = enemies c"
  "maxEnemies (calculateSpawnPositions c) = maxEnemies c"
  "enemiesSpawned (calculateSpawnPositions c) = enemiesSpawned c"
  "nextRef (calculateSpawnPositions c) = nextRef c"
  "ai_mazeRenderer (calculateSpawnPositions c) = ai_mazeRenderer c"
  by (simp_all add: calculateSpawnPositions_def Let_def split_beta split: option.splits)

lemma spawnEnemy_effect:
  "maxEnemies (spawnEnemy rnd c) = maxEnemies c
   \<and> ((enemiesSpawned (spawnEnemy rnd c) = enemiesSpawned c
        \<and> enemies (spawnEnemy rnd c) = enemies c \<and> nextRef (spawnEnemy rnd c) = nextRef c)
      \<or> (enemiesSpawned (spawnEnemy rnd c) = Suc (enemiesSpawned c)
        \<and> (\<exists>e. enemies (spawnEnemy rnd c) = enemies c @ [(nextRef c, e)])
        \<and> nextRef (spawnEnemy rnd c) = Suc (nextRef c)))"
proof (cases "ai_mazeRenderer c")
  case None
  then show ?thesis by (simp add: spawnEnemy_def)
next
  case (Some r)
  define c1 where "c1 = (if spawnPositions c = [] then calculateSpawnPositions c else c)"
  have c1: "enemies c1 = enemies c" "maxEnemies c1 = maxEnemies c"
    "enemiesSpawned c1 = enemiesSpawned c" "nextRef c1 = nextRef c"
    by (simp_all add: c1_def)
  show ?thesis
  proof (cases "spawnPositions c1 = []")
    case True
    then have "spawnEnemy rnd c = c1"
      using Some by (simp add: spawnEnemy_def Let_def c1_def)
    then show ?thesis using c1 by simp
  next
    case False
    then obtain e where "spawnEnemy rnd c =
        c1\<lparr>enemies := enemies c1 @ [(nextRef c1, e)],
           enemiesSpawned := Suc (enemiesSpawned c1), nextRef := Suc (nextRef c1)\<rparr>"
      using Some by (simp add: spawnEnemy_def Let_def split_beta c1_def)
    then show ?thesis using c1 by simp
  qed
qed

lemma updateEnemySpawning_inv:
  assumes "rosterInv M n0 c"
  shows "rosterInv M n0 (updateEnemySpawning rnd dt c)
       \<and> enemiesSpawned c \<le> enemiesSpawned (updateEnemySpawning rnd dt c)
       \<and> (int (enemiesSpawned c) = M \<longrightarrow>
            enemies (updateEnemySpawning rnd dt c) = enemies c)"
proof -
  define c1 where "c1 = c\<lparr>lastSpawnTime := lastSpawnTime c + dt\<rparr>"
  have c1: "maxEnemies c1 = maxEnemies c" "enemies c1 = enemies c"
    "enemiesSpawned c1 = enemiesSpawned c" "nextRef c1 = nextRef c"
    by (simp_all add: c1_def)
  from assms have A: "maxEnemies c = M" "length (enemies c) \<le> enemiesSpawned c"
    "int (enemiesSpawned c) \<le> M" "nextRef c = n0 + enemiesSpawned c"
    "fst ` set (enemies c) \<subseteq> {n0 ..< n0 + enemiesSpawned c}"
    by (simp_all add: rosterInv_def)
  define c2 where "c2 = spawnEnemy rnd c1"
  have unf: "updateEnemySpawning rnd dt c =
      (if int (length (enemies c1)) < maxEnemies c1 \<and>
            lastSpawnTime c1 \<ge> spawnDelay c1 \<and> int (enemiesSpawned c1) < maxEnemies c1
       then c2\<lparr>lastSpawnTime := 0\<rparr> else c1)"
    unfolding updateEnemySpawning_def Let_def c1_def c2_def ..
  show ?thesis
  proof (cases "int (length (enemies c1)) < maxEnemies c1 \<and>
            lastSpawnTime c1 \<ge> spawnDelay c1 \<and> int (enemiesSpawned c1) < maxEnemies c1")
    case False
    then have "updateEnemySpawning rnd dt c = c1"
      unfolding unf by (rule if_not_P)
    then show ?thesis using A c1 by (simp add: rosterInv_def)
  next
    case True
    then have eq: "updateEnemySpawning rnd dt c = c2\<lparr>lastSpawnTime := 0\<rparr>"
      unfolding unf by (rule if_P)
    have lt: "int (enemiesSpawned c) < M"
      using True A c1 by simp
    from spawnEnemy_effect [of rnd c1]
    consider (none) "maxEnemies c2 = maxEnemies c" "enemiesSpawned c2 = enemiesSpawned c"
        "enemies c2 = enemies c" "nextRef c2 = nextRef c"
      | (one) e where "maxEnemies c2 = maxEnemies c" "enemiesSpawned c2 = Suc (enemiesSpawned c)"
        "enemies c2 = enemies c @ [(nextRef c, e)]" "nextRef c2 = Suc (nextRef c)"
      unfolding c2_def c1 by blast
    then show ?thesis
    proof cases
      case none
      then show ?thesis unfolding eq using A by (simp add: rosterInv_def)
    next
      case one
      have sub: "fst ` set (enemies c2) \<subseteq> {n0 ..< n0 + Suc (enemiesSpawned c)}"
        using A(4,5) one(3) by auto
      show ?thesis
        unfolding eq using A lt one(1,2,4) sub one(3) by (simp add: rosterInv_def)
    qed
  qed
qed

lemma ai_update_inv:
  assumes "rosterInv M n0 c"
  shows "rosterInv M n0 (ai_update planner rnd dt pos c)
       \<and> enemiesSpawned c \<le> enemiesSpawned (ai_update planner rnd dt pos c)
       \<and> (int (enemiesSpawned c) = M \<longrightarrow>
            fst ` set (enemies (ai_update planner rnd dt pos c)) \<subseteq> fst ` set (enemies c))"
proof (cases "isActive c")
  case False
  then show ?thesis using assms by (simp add: ai_update_def)
next
  case True
  define c1 where "c1 = updatePlayerTracking pos c"
  define c2 where "c2 = updateEnemySpawning rnd dt c1"
  define es where "es = updateEnemies planner dt c2 (length (enemies c2)) (enemies c2)"
  have c1: "rosterInv M n0 c1" "enemiesSpawned c1 = enemiesSpawned c" "enemies c1 = enemies c"
    using assms by (simp_all add: rosterInv_def updatePlayerTracking_def Let_def c1_def)
  from updateEnemySpawning_inv [OF c1(1), of rnd dt]
  have s: "rosterInv M n0 c2" "enemiesSpawned c \<le> enemiesSpawned c2"
    "int (enemiesSpawned c) = M \<Longrightarrow> enemies c2 = enemies c"
    unfolding c2_def using c1(2,3) by simp_all
  from updateEnemies_shrinks [of "length (enemies c2)" "enemies c2" planner dt c2]
  have u: "length es \<le> length (enemies c2)" "fst ` set es \<subseteq> fst ` set (enemies c2)"
    unfolding es_def by simp_all
  have eq: "ai_update planner rnd dt pos c = c2\<lparr>enemies := es\<rparr>"
    using True by (simp add: ai_update_def Let_def c1_def c2_def es_def)
  from s(1) have B: "maxEnemies c2 = M" "length (enemies c2) \<le> enemiesSpawned c2"
    "int (enemiesSpawned c2) \<le> M" "nextRef c2 = n0 + enemiesSpawned c2"
    "fst ` set (enemies c2) \<subseteq> {n0 ..< n0 + enemiesSpawned c2}"
    by (simp_all add: rosterInv_def)
  have inv: "rosterInv M n0 (c2\<lparr>enemies := es\<rparr>)"
    using B u by (simp add: rosterInv_def)
  have keep: "fst ` set es \<subseteq> fst ` set (enemies c)" if "int (enemiesSpawned c) = M"
    using u(2) s(3) [OF that] by simp
  show ?thesis
    unfolding eq using inv s(2) keep by simp
qed

lemma removeRef_shrinks:
  "length (removeRef k es) \<le> length es \<and> set (removeRef k es) \<subseteq> set es"
  by (induction k es rule: removeRef.induct) auto

lemma ai_step_inv:
  assumes "rosterInv M n0 c"
  shows "rosterInv M n0 (ai_step planner ev c)
       \<and> enemiesSpawned c \<le> enemiesSpawned (ai_step planner ev c)
       \<and> (int (enemiesSpawned c) = M \<longrightarrow>
            fst ` set (enemies (ai_step planner ev c)) \<subseteq> fst ` set (enemies c))"
proof (cases ev)
  case (Update rnd dt pos)
  then show ?thesis using ai_update_inv [OF assms] by simp
next
  case (RemoveEnemy k)
  from assms have A: "maxEnemies c = M" "length (enemies c) \<le> enemiesSpawned c"
    "int (enemiesSpawned c) \<le> M" "nextRef c = n0 + enemiesSpawned c"
    "fst ` set (enemies c) \<subseteq> {n0 ..< n0 + enemiesSpawned c}"
    by (simp_all add: rosterInv_def)
  define es where "es = removeRef k (enemies c)"
  have r: "length es \<le> length (enemies c)" "fst ` set es \<subseteq> fst ` set (enemies c)"
    using removeRef_shrinks [of k "enemies c"] unfolding es_def by blast+
  have new: "rosterInv M n0 (c\<lparr>enemies := es\<rparr>)"
    using A r by (simp add: rosterInv_def)
  have "snd (removeEnemy k c) = c \<or> snd (removeEnemy k c) = c\<lparr>enemies := es\<rparr>"
    by (simp add: removeEnemy_def es_def)
  then show ?thesis
  proof
    assume "snd (removeEnemy k c) = c"
    then show ?thesis using assms RemoveEnemy by simp
  next
    assume "snd (removeEnemy k c) = c\<lparr>enemies := es\<rparr>"
    then show ?thesis using new r(2) RemoveEnemy by simp
  qed
next
  case (SetAllEnemiesVulnerable v d)
  have "map fst (enemies (setAllEnemiesVulnerable v d c)) = map fst (enemies c)"
    by (simp add: setAllEnemiesVulnerable_def split_beta comp_def)
  then have same: "fst ` set (enemies (setAllEnemiesVulnerable v d c)) = fst ` set (enemies c)"
    "length (enemies (setAllEnemiesVulnerable v d c)) = length (enemies c)"
    by (metis set_map, metis length_map)
  have other: "maxEnemies (setAllEnemiesVulnerable v d c) = maxEnemies c"
    "enemiesSpawned (setAllEnemiesVulnerable v d c) = enemiesSpawned c"
    "nextRef (setAllEnemiesVulnerable v d c) = nextRef c"
    by (simp_all add: setAllEnemiesVulnerable_def)
  show ?thesis
    using assms SetAllEnemiesVulnerable same other by (simp add: rosterInv_def)
qed

lemma ai_run_inv: "rosterInv M n0 c \<Longrightarrow> rosterInv M n0 (ai_run planner evs c)"
  by (induction evs arbitrary: c) (simp_all add: ai_step_inv)

text \<open>
  C10. From a freshly reset controller (empty roster, \<open>enemiesSpawned = 0\<close>) with a
  non-negative \<open>maxEnemies\<close>, after any sequence of ticks, removals and vulnerability
  broadcasts: the roster holds at most \<open>maxEnemies\<close> enemies; \<open>enemiesSpawned\<close> never
  decreases, never exceeds \<open>maxEnemies\<close> and counts exactly the enemies created so far;
  and once it has reached \<open>maxEnemies\<close> no step adds an enemy, so a removed or pruned
  enemy is not replaced.
\<close>

theorem roster_bounded:
  assumes "enemies c = []" and "enemiesSpawned c = 0" and "0 \<le> maxEnemies c"
  shows "(let c' = ai_run planner evs c; c'' = ai_step planner ev c'
          in maxEnemies c' = maxEnemies c
           \<and> int (length (enemies c')) \<le> maxEnemies c
           \<and> length (enemies c') \<le> enemiesSpawned c'
           \<and> int (enemiesSpawned c') \<le> maxEnemies c
           \<and> nextRef c' = nextRef c + enemiesSpawned c'
           \<and> fst ` set (enemies c') \<subseteq> {nextRef c ..< nextRef c + enemiesSpawned c'}
           \<and> enemiesSpawned c' \<le> enemiesSpawned c''
           \<and> (int (enemiesSpawned c') = maxEnemies c \<longrightarrow>
                fst ` set (enemies c'') \<subseteq> fst ` set (enemies c')))"
proof -
  have "rosterInv (maxEnemies c) (nextRef c) c"
    using assms by (simp add: rosterInv_def)
  then have inv: "rosterInv (maxEnemies c) (nextRef c) (ai_run planner evs c)"
    by (rule ai_run_inv)
  define c' where "c' = ai_run planner evs c"
  define c'' where "c'' = ai_step planner ev c'"
  from inv have A: "maxEnemies c' = maxEnemies c" "length (enemies c') \<le> enemiesSpawned c'"
    "int (enemiesSpawned c') \<le> maxEnemies c" "nextRef c' = nextRef c + enemiesSpawned c'"
    "fst ` set (enemies c') \<subseteq> {nextRef c ..< nextRef c + enemiesSpawned c'}"
    unfolding c'_def rosterInv_def by blast+
  from ai_step_inv [OF inv, of planner ev]
  have B: "enemiesSpawned c' \<le> enemiesSpawned c''"
    "int (enemiesSpawned c') = maxEnemies c \<longrightarrow> fst ` set (enemies c'') \<subseteq> fst ` set (enemies c')"
    unfolding c'_def c''_def by blast+
  have C: "int (length (enemies c')) \<le> maxEnemies c"
    using A(2,3) by linarith
  show ?thesis
    unfolding Let_def c'_def [symmetric] c''_def [symmetric]
    using A B C by blast
qed

definition controller0 :: aiController where
  "controller0 = AIController (Some renderer0)"

theorem roster_bounded_witness:
  "enemies controller0 = [] \<and> enemiesSpawned controller0 = 0 \<and> 0 \<le> maxEnemies controller0
   \<and> (let c' = ai_run (\<lambda>e. (0, 0))
                  [Update 0.1 2000 (30, 30), RemoveEnemy 0, Update 0.7 2000 (32, 30)] controller0
      in int (length (enemies c')) \<le> 4 \<and> int (enemiesSpawned c') \<le> 4
         \<and> nextRef c' = enemiesSpawned c')"
proof -
  have a: "enemies controller0 = []" and b: "enemiesSpawned controller0 = 0"
    and c: "0 \<le> maxEnemies controller0"
    and d: "maxEnemies controller0 = 4" "nextRef controller0 = 0"
    by (simp_all add: controller0_def AIController_def)
  show ?thesis
    using roster_bounded [OF a b c, of "\<lambda>e. (0, 0)"
        "[Update 0.1 2000 (30, 30), RemoveEnemy 0, Update 0.7 2000 (32, 30)]" "RemoveEnemy 0"]
      a b c
    unfolding Let_def d by simp
qed

subsection \<open>Collision arbitration (GameEngine.js)\<close>

text \<open>
  The engine state that collision handling and pellet collection read and write
  (\<open>gameState.score\<close>, \<open>gameState.lives\<close> and \<open>gameState.level\<close> are the first three
  fields). The deferred callbacks of
  \<open>respawnPlayer\<close> and \<open>showGameOverScreen\<close> (\<open>setTimeout\<close>) run after the tick and are
  not part of it.
\<close>

record gameEngine =
  score :: int
  lives :: int
  level :: int
  isRunning :: bool
  invulnerabilityTime :: real
  invulnerabilityDuration :: real
  isRespawning :: bool
  g_player :: player
  g_aiController :: aiController
  g_pelletManager :: pelletManager
  powerPelletEndTime :: "real option"

definition p_stop :: "player \<Rightarrow> player" where
  "p_stop p = p\<lparr>p_direction := (0, 0), nextDirection := (0, 0), isMoving := False\<rparr>"

definition updateScore :: "int \<Rightarrow> gameEngine \<Rightarrow> gameEngine" where
  "updateScore pts g = g\<lparr>score := score g + pts\<rparr>"

definition respawnPlayer :: "gameEngine \<Rightarrow> gameEngine" where
  "respawnPlayer g =
     g\<lparr>isRespawning := True, g_player := p_stop (g_player g),
       invulnerabilityTime := invulnerabilityDuration g\<rparr>"

definition gameOver :: "gameEngine \<Rightarrow> gameEngine" where
  "gameOver g = g\<lparr>isRunning := False, g_aiController := setActive False (g_aiController g)\<rparr>"

definition loseLife :: "gameEngine \<Rightarrow> gameEngine" where
  "loseLife g =
     (let g1 = g\<lparr>lives := lives g - 1\<rparr>
      in if lives g1 \<le> 0 then gameOver g1 else respawnPlayer g1)"

text \<open>\<open>pointValues[enemyType] || 200\<close> on the five archetype names.\<close>

definition getEnemyPoints :: "string \<Rightarrow> int" where
  "getEnemyPoints enemyType =
     (if enemyType = ''chaser'' then 200
      else if enemyType = ''ambusher'' then 400
      else if enemyType = ''patrol'' then 300
      else if enemyType = ''random'' then 100
      else if enemyType = ''ghost'' then 200
      else 200)"

definition handleVulnerableEnemyCollision :: "ref \<times> enemy \<Rightarrow> gameEngine \<Rightarrow> gameEngine" where
  "handleVulnerableEnemyCollision ke g =
     (let points = getEnemyPoints (e_type (snd ke));
          g1 = updateScore points g
      in g1\<lparr>g_aiController := snd (removeEnemy (fst ke) (g_aiController g1))\<rparr>)"

definition handleEnemyHitPlayer :: "ref \<times> enemy \<Rightarrow> gameEngine \<Rightarrow> gameEngine" where
  "handleEnemyHitPlayer ke g = loseLife g"

text \<open>The \<open>for ... of collidingEnemies\<close> loop; the \<open>break\<close> ends the recursion.\<close>

fun collisionLoop :: "(ref \<times> enemy) list \<Rightarrow> gameEngine \<Rightarrow> gameEngine" where
  "collisionLoop [] g = g"
| "collisionLoop (ke # rest) g =
     (if isVulnerable (snd ke) then collisionLoop rest (handleVulnerableEnemyCollision ke g)
      else handleEnemyHitPlayer ke g)"

definition handleEnemyCollisions :: "gameEngine \<Rightarrow> gameEngine" where
  "handleEnemyCollisions g =
     (if invulnerabilityTime g > 0 then g
      else
        (let playerPos = (p_x (g_player g), p_y (g_player g));
             playerSize = p_size (g_player g);
             collidingEnemies = checkPlayerCollisions (g_aiController g) playerPos playerSize
         in collisionLoop collidingEnemies g))"

text \<open>The vulnerable enemies at the front of the colliding list are the ones eaten.\<close>

definition eatenEnemies :: "gameEngine \<Rightarrow> (ref \<times> enemy) list" where
  "eatenEnemies g =
     takeWhile (\<lambda>ke. isVulnerable (snd ke))
       (checkPlayerCollisions (g_aiController g) (p_x (g_player g), p_y (g_player g))
          (p_size (g_player g)))"

lemma removeRef_refs:
  "distinct (map fst es) \<Longrightarrow> map fst (removeRef k es) = filter (\<lambda>j. j \<noteq> k) (map fst es)"
proof (induction k es rule: removeRef.induct)
  case (1 k)
  then show ?case by simp
next
  case (2 k k' e es)
  show ?case
  proof (cases "k' = k")
    case True
    with "2.prems" have "k \<notin> set (map fst es)" by simp
    then have "filter (\<lambda>j. j \<noteq> k) (map fst es) = map fst es"
      by (auto simp: filter_id_conv)
    with True show ?thesis by simp
  next
    case False
    with 2 show ?thesis by simp
  qed
qed

lemma removeEnemy_refs:
  "distinct (map fst (enemies c)) \<Longrightarrow>
     map fst (enemies (snd (removeEnemy k c))) = filter (\<lambda>j. j \<noteq> k) (map fst (enemies c))"
proof (cases "k \<in> fst ` set (enemies c)")
  case True
  assume "distinct (map fst (enemies c))"
  with True show ?thesis by (simp add: removeEnemy_def removeRef_refs)
next
  case False
  then have "filter (\<lambda>j. j \<noteq> k) (map fst (enemies c)) = map fst (enemies c)"
    by (auto simp: filter_id_conv)
  with False show ?thesis by (simp add: removeEnemy_def)
qed

lemma setActive_refs: "map fst (enemies (setActive a c)) = map fst (enemies c)"
  by (simp add: setActive_def Let_def split_beta comp_def)

lemma loseLife_effect:
  "lives (loseLife g) = lives g - 1 \<and> score (loseLife g) = score g
   \<and> map fst (enemies (g_aiController (loseLife g))) = map fst (enemies (g_aiController g))"
  by (simp add: loseLife_def Let_def gameOver_def respawnPlayer_def setActive_refs)

lemma eat_effect:
  "distinct (map fst (enemies (g_aiController g))) \<Longrightarrow>
   lives (handleVulnerableEnemyCollision ke g) = lives g
   \<and> score (handleVulnerableEnemyCollision ke g) = score g + getEnemyPoints (e_type (snd ke))
   \<and> map fst (enemies (g_aiController (handleVulnerableEnemyCollision ke g)))
       = filter (\<lambda>j. j \<noteq> fst ke) (map fst (enemies (g_aiController g)))"
  by (simp add: handleVulnerableEnemyCollision_def Let_def updateScore_def removeEnemy_refs)

lemma collisionLoop_effect:
  "distinct (map fst (enemies (g_aiController g))) \<Longrightarrow>
   (let eaten = takeWhile (\<lambda>ke. isVulnerable (snd ke)) cs; g' = collisionLoop cs g
    in score g' = score g + sum_list (map (\<lambda>ke. getEnemyPoints (e_type (snd ke))) eaten)
     \<and> lives g' = (if eaten = cs then lives g else lives g - 1)
     \<and> map fst (enemies (g_aiController g'))
         = filter (\<lambda>j. j \<notin> fst ` set eaten) (map fst (enemies (g_aiController g))))"
proof (induction cs arbitrary: g)
  case Nil
  then show ?case by simp
next
  case (Cons ke cs)
  show ?case
  proof (cases "isVulnerable (snd ke)")
    case False
    then show ?thesis
      using loseLife_effect [of g] by (simp add: handleEnemyHitPlayer_def)
  next
    case True
    let ?g1 = "handleVulnerableEnemyCollision ke g"
    note e = eat_effect [OF Cons.prems, of ke]
    have d: "distinct (map fst (enemies (g_aiController ?g1)))"
      using e Cons.prems by simp
    from Cons.IH [OF d] e True show ?thesis
      by (simp add: Let_def conj_commute cong: conj_cong)
  qed
qed


definition engine0 :: gameEngine where
  "engine0 = \<lparr>score = 0, lives = 3, level = 1, isRunning = True, invulnerabilityTime = 0,
     invulnerabilityDuration = 2000, isRespawning = False,
     g_player = player0\<lparr>p_x := 50, p_y := 50\<rparr>,
     g_aiController = controller0\<lparr>enemies :=
        [(0, setVulnerable True (Some 5000) (enemy0\<lparr>e_type := ''ambusher''\<rparr>)), (1, enemy0)],
        enemiesSpawned := 2, nextRef := 2\<rparr>,
     g_pelletManager = manager0, powerPelletEndTime = None\<rparr>"

definition engineInvulnerable :: gameEngine where
  "engineInvulnerable =
     engine0\<lparr>invulnerabilityTime := 1000,
             g_aiController := (g_aiController engine0)\<lparr>enemies := [(1, enemy0)]\<rparr>\<rparr>"

text \<open>
  C4, as stated, fails during the invulnerability period: with
  \<open>invulnerabilityTime = 1000\<close> and a non-vulnerable enemy on the player's position, the
  life count stays at 3.
\<close>

theorem collision_invulnerable_counterexample:
  "\<not> (let g = engineInvulnerable; g' = handleEnemyCollisions g
       in (1, enemy0) \<in> set (checkPlayerCollisions (g_aiController g)
                                (p_x (g_player g), p_y (g_player g)) (p_size (g_player g)))
          \<and> \<not> isVulnerable enemy0
          \<longrightarrow> lives g' = lives g - 1)"
  by (simp add: engineInvulnerable_def engine0_def handleEnemyCollisions_def
      checkPlayerCollisions_def enemy0_def player0_def Let_def)

text \<open>
  C4, amended. While \<open>invulnerabilityTime > 0\<close> collision arbitration does nothing.
  Otherwise the enemies whose bounding circle overlaps the player's are processed in
  roster order: every vulnerable one before the first non-vulnerable one is removed from
  the roster and its archetype's points are credited, with the life count unchanged; at
  the first non-vulnerable one the life count decreases by exactly 1 and processing stops
  (that enemy and all later ones stay in the roster), so at most one life is lost.
\<close>

theorem collision_arbitration:
  assumes "distinct (map fst (enemies (g_aiController g)))"
  shows "(invulnerabilityTime g > 0 \<longrightarrow> handleEnemyCollisions g = g)
       \<and> (invulnerabilityTime g \<le> 0 \<longrightarrow>
           (let cs = checkPlayerCollisions (g_aiController g)
                       (p_x (g_player g), p_y (g_player g)) (p_size (g_player g));
                eaten = eatenEnemies g;
                g' = handleEnemyCollisions g
            in score g' = score g + sum_list (map (\<lambda>ke. getEnemyPoints (e_type (snd ke))) eaten)
             \<and> map fst (enemies (g_aiController g'))
                 = filter (\<lambda>j. j \<notin> fst ` set eaten) (map fst (enemies (g_aiController g)))
             \<and> lives g' = (if eaten = cs then lives g else lives g - 1)
             \<and> lives g - 1 \<le> lives g'))"
proof -
  define cs where "cs = checkPlayerCollisions (g_aiController g)
                       (p_x (g_player g), p_y (g_player g)) (p_size (g_player g))"
  have eaten: "eatenEnemies g = takeWhile (\<lambda>ke. isVulnerable (snd ke)) cs"
    by (simp add: eatenEnemies_def cs_def)
  have run: "handleEnemyCollisions g = collisionLoop cs g" if "invulnerabilityTime g \<le> 0"
    using that by (simp add: handleEnemyCollisions_def Let_def cs_def)
  from collisionLoop_effect [OF assms, of cs]
  have eff: "score (collisionLoop cs g)
        = score g + sum_list (map (\<lambda>ke. getEnemyPoints (e_type (snd ke))) (eatenEnemies g))"
    "map fst (enemies (g_aiController (collisionLoop cs g)))
        = filter (\<lambda>j. j \<notin> fst ` set (eatenEnemies g)) (map fst (enemies (g_aiController g)))"
    "lives (collisionLoop cs g) = (if eatenEnemies g = cs then lives g else lives g - 1)"
    unfolding Let_def eaten by blast+
  have low: "lives g - 1 \<le> lives (collisionLoop cs g)"
    using eff(3) by simp
  have skip: "handleEnemyCollisions g = g" if "invulnerabilityTime g > 0"
    using that by (simp add: handleEnemyCollisions_def)
  show ?thesis
    unfolding Let_def cs_def [symmetric]
    using skip run eff low by simp
qed

theorem collision_arbitration_witness:
  "distinct (map fst (enemies (g_aiController engine0)))
   \<and> invulnerabilityTime engine0 \<le> 0
   \<and> map fst (eatenEnemies engine0) = [0]
   \<and> score (handleEnemyCollisions engine0) = 400
   \<and> lives (handleEnemyCollisions engine0) = 2
   \<and> map fst (enemies (g_aiController (handleEnemyCollisions engine0))) = [1]"
proof -
  have d: "distinct (map fst (enemies (g_aiController engine0)))"
    by (simp add: engine0_def)
  have t: "invulnerabilityTime engine0 \<le> 0" by (simp add: engine0_def)
  have cs: "checkPlayerCollisions (g_aiController engine0)
      (p_x (g_player engine0), p_y (g_player engine0)) (p_size (g_player engine0))
      = [(0, setVulnerable True (Some 5000) (enemy0\<lparr>e_type := ''ambusher''\<rparr>)), (1, enemy0)]"
    by (simp add: engine0_def checkPlayerCollisions_def player0_def enemy0_def
        setVulnerable_def Let_def)
  have e: "eatenEnemies engine0 = [(0, setVulnerable True (Some 5000) (enemy0\<lparr>e_type := ''ambusher''\<rparr>))]"
    unfolding eatenEnemies_def cs by (simp add: setVulnerable_def enemy0_def Let_def)
  have pts: "getEnemyPoints (e_type (setVulnerable True (Some 5000) (enemy0\<lparr>e_type := ''ambusher''\<rparr>))) = 400"
    by (simp add: getEnemyPoints_def setVulnerable_def enemy0_def Let_def)
  have base: "score engine0 = 0" "lives engine0 = 3"
    "map fst (enemies (g_aiController engine0)) = [0, 1]"
    by (simp_all add: engine0_def)
  show ?thesis
    using collision_arbitration [OF d] d t
    unfolding Let_def cs e by (simp add: pts base)
qed


subsection \<open>Pellet collection (GameEngine.js)\<close>




text \<open>
  \<open>handlePowerPelletCollection\<close>; \<open>now\<close> is the value read from \<open>Date.now()\<close>.
\<close>

definition handlePowerPelletCollection :: "real \<Rightarrow> gameEngine \<Rightarrow> gameEngine" where
  "handlePowerPelletCollection now g =
     (let baseDuration = 10000;
          levelReduction = min 3000 ((level g - 1) * 200);
          vulnerabilityDuration = max 5000 (baseDuration - levelReduction);
          g1 = g\<lparr>g_aiController :=
                  setAllEnemiesVulnerable True (of_int vulnerabilityDuration) (g_aiController g)\<rparr>;
          g2 = updateScore 50 g1
      in g2\<lparr>powerPelletEndTime := Some (now + of_int vulnerabilityDuration)\<rparr>)"







lemma handlePowerPelletCollection_fields [simp]:
  "score (handlePowerPelletCollection now g) = score g + 50"
  "g_pelletManager (handlePowerPelletCollection now g) = g_pelletManager g"
  "g_player (handlePowerPelletCollection now g) = g_player g"
  by (simp_all add: handlePowerPelletCollection_def updateScore_def Let_def)















subsection \<open>Maze generation (MazeGenerator.js)\<close>

text \<open>
  \<open>Math.random()\<close> is a stream of reals, meant to lie in \<open>[0, 1)\<close>; each call takes the
  head of the stream. \<open>Math.floor(Math.random() * n)\<close> is computed on the reals.
\<close>

type_synonym rng = "nat \<Rightarrow> real"

definition randomFloor :: "int \<Rightarrow> rng \<Rightarrow> int \<times> rng" where
  "randomFloor n rnd = (\<lfloor>rnd 0 * of_int n\<rfloor>, \<lambda>i. rnd (Suc i))"

datatype js_error = TypeError | Error string

record mazeGenerator =
  mg_width :: int
  mg_height :: int

definition WALL :: int where "WALL = 1"
definition PATH :: int where "PATH = 0"

definition directions :: "(int \<times> int) list" where
  "directions = [(0, -2), (2, 0), (0, 2), (-2, 0)]"

definition MazeGenerator :: "int \<Rightarrow> int \<Rightarrow> mazeGenerator" where
  "MazeGenerator w h =
     \<lparr>mg_width = (if w mod 2 = 0 then w + 1 else w),
      mg_height = (if h mod 2 = 0 then h + 1 else h)\<rparr>"

text \<open>
  The array of rows has exactly the rows \<open>0 \<le> y < height\<close>. Reading or writing
  \<open>maze[y][x]\<close> on a missing row throws a \<open>TypeError\<close>; on an existing row a read of
  a missing column gives \<open>undefined\<close> and a write creates the entry.
\<close>

definition readCell :: "mazeGenerator \<Rightarrow> grid \<Rightarrow> int \<Rightarrow> int \<Rightarrow> js_error + int option" where
  "readCell gen m x y = (if 0 \<le> y \<and> y < mg_height gen then Inr (m (x, y)) else Inl TypeError)"

definition writeCell :: "mazeGenerator \<Rightarrow> grid \<Rightarrow> int \<Rightarrow> int \<Rightarrow> int \<Rightarrow> js_error + grid" where
  "writeCell gen m x y v =
     (if 0 \<le> y \<and> y < mg_height gen then Inr (m((x, y) \<mapsto> v)) else Inl TypeError)"

definition initializeMaze :: "mazeGenerator \<Rightarrow> grid" where
  "initializeMaze gen =
     (\<lambda>(x, y). if 0 \<le> y \<and> y < mg_height gen \<and> 0 \<le> x \<and> x < mg_width gen
               then Some WALL else None)"

definition isValidPosition :: "mazeGenerator \<Rightarrow> int \<Rightarrow> int \<Rightarrow> bool" where
  "isValidPosition gen x y \<longleftrightarrow> x > 0 \<and> x < mg_width gen - 1 \<and> y > 0 \<and> y < mg_height gen - 1"

definition isInBounds :: "mazeGenerator \<Rightarrow> int \<Rightarrow> int \<Rightarrow> bool" where
  "isInBounds gen x y \<longleftrightarrow> x \<ge> 0 \<and> x < mg_width gen \<and> y \<ge> 0 \<and> y < mg_height gen"

text \<open>
  \<open>shuffleArray\<close> (Fisher-Yates), for \<open>i\<close> from \<open>length - 1\<close> down to \<open>1\<close>; the argument
  \<open>n\<close> of the loop is \<open>i + 1\<close>.
\<close>

fun shuffleLoop :: "nat \<Rightarrow> 'a list \<Rightarrow> rng \<Rightarrow> 'a list \<times> rng" where
  "shuffleLoop 0 xs rnd = (xs, rnd)"
| "shuffleLoop (Suc 0) xs rnd = (xs, rnd)"
| "shuffleLoop (Suc (Suc k)) xs rnd =
     (let i = Suc k;
          (j, rnd') = randomFloor (int i + 1) rnd
      in shuffleLoop (Suc k) (xs[i := xs ! nat j, nat j := xs ! i]) rnd')"

definition shuffleArray :: "'a list \<Rightarrow> rng \<Rightarrow> 'a list \<times> rng" where
  "shuffleArray xs rnd = shuffleLoop (length xs) xs rnd"

text \<open>
  \<open>recursiveBacktrack\<close>: \<open>backtrackLoop\<close> is its \<open>for\<close> loop over the shuffled
  directions still to try at \<open>(x, y)\<close>; the recursive call of \<open>recursiveBacktrack\<close> at
  the new cell is the loop started on a fresh shuffle. The accesses are guarded by
  \<open>isValidPosition\<close>, so their rows exist.
\<close>

function backtrackLoop ::
  "mazeGenerator \<Rightarrow> (int \<times> int) list \<Rightarrow> int \<Rightarrow> int \<Rightarrow> grid \<times> rng \<Rightarrow> grid \<times> rng" where
  "backtrackLoop gen [] x y st = st"
| "backtrackLoop gen (d # ds) x y st =
     (let newX = x + fst d; newY = y + snd d
      in if isValidPosition gen newX newY \<and> fst st (newX, newY) = Some WALL then
           (let wallX = x + fst d div 2; wallY = y + snd d div 2;
                m1 = (fst st)((newX, newY) \<mapsto> PATH);
                m2 = m1((wallX, wallY) \<mapsto> PATH);
                sh = shuffleArray directions (snd st)
            in backtrackLoop gen ds x y (backtrackLoop gen (fst sh) newX newY (m2, snd sh)))
         else backtrackLoop gen ds x y st)"
  by pat_completeness auto

definition unvisited :: "mazeGenerator \<Rightarrow> grid \<Rightarrow> (int \<times> int) set" where
  "unvisited gen m = {(x, y). isValidPosition gen x y \<and> m (x, y) = Some WALL}"

lemma finite_unvisited: "finite (unvisited gen m)"
proof -
  have "unvisited gen m \<subseteq> {0..mg_width gen} \<times> {0..mg_height gen}"
    by (auto simp: unvisited_def isValidPosition_def)
  then show ?thesis by (rule finite_subset) simp
qed

lemma unvisited_carve: "unvisited gen (m(p \<mapsto> PATH)) = unvisited gen m - {p}"
  by (auto simp: unvisited_def PATH_def WALL_def)

lemma backtrackLoop_unvisited:
  "backtrackLoop_dom (gen, ds, x, y, st) \<Longrightarrow>
     unvisited gen (fst (backtrackLoop gen ds x y st)) \<subseteq> unvisited gen (fst st)"
proof (induction gen ds x y st rule: backtrackLoop.pinduct)
  case (1 gen x y st)
  then show ?case by (simp add: backtrackLoop.psimps)
next
  case (2 gen d ds x y st)
  let ?newX = "x + fst d" and ?newY = "y + snd d"
  let ?m2 = "((fst st)((?newX, ?newY) \<mapsto> PATH))((x + fst d div 2, y + snd d div 2) \<mapsto> PATH)"
  let ?sh = "shuffleArray directions (snd st)"
  let ?inner = "backtrackLoop gen (fst ?sh) ?newX ?newY (?m2, snd ?sh)"
  have eq: "backtrackLoop gen (d # ds) x y st =
      (if isValidPosition gen ?newX ?newY \<and> fst st (?newX, ?newY) = Some WALL
       then backtrackLoop gen ds x y ?inner else backtrackLoop gen ds x y st)"
    using "2.hyps" by (simp add: backtrackLoop.psimps Let_def)
  show ?case
  proof (cases "isValidPosition gen ?newX ?newY \<and> fst st (?newX, ?newY) = Some WALL")
    case False
    have "backtrackLoop gen (d # ds) x y st = backtrackLoop gen ds x y st"
      unfolding eq using False by (rule if_not_P)
    then show ?thesis
      using "2.IH"(3) [OF refl refl False] by simp
  next
    case True
    have step: "backtrackLoop gen (d # ds) x y st = backtrackLoop gen ds x y ?inner"
      unfolding eq using True by (rule if_P)
    have a: "unvisited gen (fst ?inner) \<subseteq> unvisited gen ?m2"
      using "2.IH"(1) [OF refl refl True refl refl refl refl refl] by (simp only: fst_conv)
    have b: "unvisited gen (fst (backtrackLoop gen ds x y ?inner)) \<subseteq> unvisited gen (fst ?inner)"
      using "2.IH"(2) [OF refl refl True refl refl refl refl refl] .
    have c: "unvisited gen ?m2 \<subseteq> unvisited gen (fst st)"
      by (auto simp: unvisited_carve)
    show ?thesis
      unfolding step using a b c by blast
  qed
qed

termination backtrackLoop
proof (relation "(\<lambda>(gen, ds, x, y, st). card (unvisited gen (fst st))) <*mlex*>
                 measure (\<lambda>(gen, ds, x, y, st). length ds)", goal_cases)
  case 1
  then show ?case by (simp add: wf_mlex)
next
  case (2 gen d ds x y st newX newY wallX wallY m1 m2 sh)
  have "(newX, newY) \<in> unvisited gen (fst st)"
    using 2 by (simp add: unvisited_def)
  moreover have "unvisited gen m2 \<subseteq> unvisited gen (fst st) - {(newX, newY)}"
    using 2 by (auto simp: unvisited_carve)
  ultimately have "card (unvisited gen m2) < card (unvisited gen (fst st))"
    by (metis Diff_subset card_Diff1_less card_mono finite_Diff finite_unvisited
        le_less_trans)
  then show ?case by (simp add: mlex_less)
next
  case (3 gen d ds x y st newX newY wallX wallY m1 m2 sh)
  have "(newX, newY) \<in> unvisited gen (fst st)"
    using 3 by (simp add: unvisited_def)
  moreover have "unvisited gen m2 \<subseteq> unvisited gen (fst st) - {(newX, newY)}"
    using 3 by (auto simp: unvisited_carve)
  moreover have "unvisited gen (fst (backtrackLoop gen (fst sh) newX newY (m2, snd sh)))
      \<subseteq> unvisited gen m2"
    using backtrackLoop_unvisited [OF 3(9)] by (simp only: fst_conv)
  ultimately have "unvisited gen (fst (backtrackLoop gen (fst sh) newX newY (m2, snd sh)))
      \<subset> unvisited gen (fst st)"
    by blast
  then have "card (unvisited gen (fst (backtrackLoop gen (fst sh) newX newY (m2, snd sh))))
      < card (unvisited gen (fst st))"
    by (rule psubset_card_mono [OF finite_unvisited])
  then show ?case by (simp add: mlex_less)
next
  case (4 gen d ds x y st newX newY)
  then show ?case by (simp add: mlex_leq)
qed

definition recursiveBacktrack :: "mazeGenerator \<Rightarrow> int \<Rightarrow> int \<Rightarrow> grid \<times> rng \<Rightarrow> grid \<times> rng" where
  "recursiveBacktrack gen x y st =
     (let sh = shuffleArray directions (snd st)
      in backtrackLoop gen (fst sh) x y (fst st, snd sh))"

definition getPathNeighbors :: "mazeGenerator \<Rightarrow> grid \<Rightarrow> int \<Rightarrow> int \<Rightarrow> (int \<times> int) list" where
  "getPathNeighbors gen m x y =
     filter (\<lambda>(newX, newY). isInBounds gen newX newY \<and> m (newX, newY) = Some PATH)
       (map (\<lambda>(dx, dy). (x + dx, y + dy)) [(0, -1), (1, 0), (0, 1), (-1, 0)])"

text \<open>
  \<open>hasNearbyPaths\<close> counts path cells in the square of the given radius and returns
  early at two; its result is \<open>pathCount \<ge> 2\<close> or, at the end, \<open>pathCount \<ge> 1\<close>.
\<close>

definition hasNearbyPaths :: "mazeGenerator \<Rightarrow> grid \<Rightarrow> int \<Rightarrow> int \<Rightarrow> int \<Rightarrow> bool" where
  "hasNearbyPaths gen m x y radius =
     (let cells = concat (map (\<lambda>dx. map (\<lambda>dy. (x + dx, y + dy)) [- radius..radius])
                              [- radius..radius]);
          pathCount = length (filter (\<lambda>(newX, newY). isInBounds gen newX newY \<and>
                                          m (newX, newY) = Some PATH) cells)
      in pathCount \<ge> 2 \<or> pathCount \<ge> 1)"

fun addRandomLoopsLoop :: "mazeGenerator \<Rightarrow> nat \<Rightarrow> grid \<times> rng \<Rightarrow> js_error + grid \<times> rng" where
  "addRandomLoopsLoop gen 0 st = Inr st"
| "addRandomLoopsLoop gen (Suc n) st =
     (let (rx, rnd1) = randomFloor (mg_width gen - 4) (snd st);
          x = 2 + rx;
          (ry, rnd2) = randomFloor (mg_height gen - 4) rnd1;
          y = 2 + ry
      in case readCell gen (fst st) x y of
           Inl e \<Rightarrow> Inl e
         | Inr c \<Rightarrow>
             if c = Some WALL \<and> length (getPathNeighbors gen (fst st) x y) \<ge> 2
             then addRandomLoopsLoop gen n ((fst st)((x, y) \<mapsto> PATH), rnd2)
             else addRandomLoopsLoop gen n (fst st, rnd2))"

definition addRandomLoops :: "mazeGenerator \<Rightarrow> grid \<times> rng \<Rightarrow> js_error + grid \<times> rng" where
  "addRandomLoops gen st =
     (let loopCount = (mg_width gen * mg_height gen) div 200
      in addRandomLoopsLoop gen (nat loopCount) st)"

text \<open>Writes \<open>PATH\<close> to the listed cells in order; a missing row throws.\<close>

fun writeCells :: "mazeGenerator \<Rightarrow> (int \<times> int) list \<Rightarrow> grid \<Rightarrow> js_error + grid" where
  "writeCells gen [] m = Inr m"
| "writeCells gen ((x, y) # cells) m =
     (case writeCell gen m x y PATH of
        Inl e \<Rightarrow> Inl e
      | Inr m' \<Rightarrow> writeCells gen cells m')"

fun createWiderCorridorsLoop :: "mazeGenerator \<Rightarrow> nat \<Rightarrow> grid \<times> rng \<Rightarrow> js_error + grid \<times> rng" where
  "createWiderCorridorsLoop gen 0 st = Inr st"
| "createWiderCorridorsLoop gen (Suc n) st =
     (let (rx, rnd1) = randomFloor (mg_width gen - 6) (snd st);
          x = 2 + rx;
          (ry, rnd2) = randomFloor (mg_height gen - 6) rnd1;
          y = 2 + ry
      in if hasNearbyPaths gen (fst st) x y 2 then
           (let cells = filter (\<lambda>(cx, cy). cx < mg_width gen - 1 \<and> cy < mg_height gen - 1)
                          (concat (map (\<lambda>dx. map (\<lambda>dy. (x + dx, y + dy)) [0, 1]) [0, 1, 2]))
            in case writeCells gen cells (fst st) of
                 Inl e \<Rightarrow> Inl e
               | Inr m' \<Rightarrow> createWiderCorridorsLoop gen n (m', rnd2))
         else createWiderCorridorsLoop gen n (fst st, rnd2))"

definition createWiderCorridors :: "mazeGenerator \<Rightarrow> grid \<times> rng \<Rightarrow> js_error + grid \<times> rng" where
  "createWiderCorridors gen st =
     (let corridorCount = (mg_width gen * mg_height gen) div 300
      in createWiderCorridorsLoop gen (nat corridorCount) st)"

text \<open>Writes guarded by the strict-interior test target existing rows.\<close>

definition carve :: "grid \<Rightarrow> (int \<times> int) list \<Rightarrow> grid" where
  "carve m cells = foldl (\<lambda>m' c. m'(c \<mapsto> PATH)) m cells"

fun createOpenAreasLoop :: "mazeGenerator \<Rightarrow> nat \<Rightarrow> grid \<times> rng \<Rightarrow> grid \<times> rng" where
  "createOpenAreasLoop gen 0 st = st"
| "createOpenAreasLoop gen (Suc n) st =
     (let (rx, rnd1) = randomFloor (mg_width gen - 8) (snd st);
          centerX = 3 + rx;
          (ry, rnd2) = randomFloor (mg_height gen - 8) rnd1;
          centerY = 3 + ry;
          (rs, rnd3) = randomFloor 2 rnd2;
          sz = 3 + rs
      in if hasNearbyPaths gen (fst st) centerX centerY 3 then
           (let cells = filter (\<lambda>(newX, newY). newX > 0 \<and> newX < mg_width gen - 1 \<and>
                                                newY > 0 \<and> newY < mg_height gen - 1)
                          (concat (map (\<lambda>dx. map (\<lambda>dy. (centerX + dx, centerY + dy))
                                                 [- (sz div 2)..sz div 2])
                                       [- (sz div 2)..sz div 2]))
            in createOpenAreasLoop gen n (carve (fst st) cells, rnd3))
         else createOpenAreasLoop gen n (fst st, rnd3))"

definition createOpenAreas :: "mazeGenerator \<Rightarrow> grid \<times> rng \<Rightarrow> grid \<times> rng" where
  "createOpenAreas gen st =
     (let areaCount = (mg_width gen * mg_height gen) div 400
      in createOpenAreasLoop gen (nat areaCount) st)"

definition createEdgeTunnels :: "mazeGenerator \<Rightarrow> grid \<Rightarrow> grid" where
  "createEdgeTunnels gen m =
     (let midY = mg_height gen div 2
      in if midY > 1 \<and> midY < mg_height gen - 2
         then carve m [(1, midY), (2, midY), (mg_width gen - 2, midY), (mg_width gen - 3, midY)]
         else m)"

definition addPacManFeatures :: "mazeGenerator \<Rightarrow> grid \<times> rng \<Rightarrow> js_error + grid \<times> rng" where
  "addPacManFeatures gen st =
     (case addRandomLoops gen st of
        Inl e \<Rightarrow> Inl e
      | Inr st1 \<Rightarrow>
          (case createWiderCorridors gen st1 of
             Inl e \<Rightarrow> Inl e
           | Inr st2 \<Rightarrow>
               (let st3 = createOpenAreas gen st2
                in Inr (createEdgeTunnels gen (fst st3), snd st3))))"

definition getAccessiblePositions :: "mazeGenerator \<Rightarrow> grid \<Rightarrow> (int \<times> int) list" where
  "getAccessiblePositions gen m =
     concat (map (\<lambda>y. map (\<lambda>x. (x, y))
                         (filter (\<lambda>x. m (x, y) = Some PATH) [0..mg_width gen - 1]))
                 [0..mg_height gen - 1])"

text \<open>
  \<open>tryConnectToExistingPaths\<close>: the first offset, \<open>dx\<close> outermost, whose cell is an
  in-bounds path cell and whose midpoint is in bounds gets its midpoint carved.
\<close>

definition tryConnectToExistingPaths :: "mazeGenerator \<Rightarrow> grid \<Rightarrow> int \<Rightarrow> int \<Rightarrow> grid" where
  "tryConnectToExistingPaths gen m x y =
     (let searchRadius = 3;
          offsets = concat (map (\<lambda>dx. map (\<lambda>dy. (dx, dy)) [- searchRadius..searchRadius])
                                [- searchRadius..searchRadius])
      in case find (\<lambda>(dx, dy). \<not> (dx = 0 \<and> dy = 0) \<and>
                               isInBounds gen (x + dx) (y + dy) \<and> m (x + dx, y + dy) = Some PATH \<and>
                               isInBounds gen (x + dx div 2) (y + dy div 2)) offsets of
           Some (dx, dy) \<Rightarrow> m((x + dx div 2, y + dy div 2) \<mapsto> PATH)
         | None \<Rightarrow> m)"

text \<open>\<open>createCorridor\<close>; the loop runs \<open>i\<close> from \<open>1\<close> to \<open>length\<close>, \<open>k\<close> steps remain.\<close>

fun createCorridorLoop ::
  "mazeGenerator \<Rightarrow> int \<Rightarrow> int \<Rightarrow> int \<times> int \<Rightarrow> int \<Rightarrow> nat \<Rightarrow> int \<Rightarrow> grid \<Rightarrow> grid" where
  "createCorridorLoop gen startX startY direction len 0 i m = m"
| "createCorridorLoop gen startX startY direction len (Suc k) i m =
     (let newX = startX + fst direction * i; newY = startY + snd direction * i
      in if newX > 0 \<and> newX < mg_width gen - 1 \<and> newY > 0 \<and> newY < mg_height gen - 1 then
           (let m1 = m((newX, newY) \<mapsto> PATH);
                m2 = (if i = len then tryConnectToExistingPaths gen m1 newX newY else m1)
            in createCorridorLoop gen startX startY direction len k (i + 1) m2)
         else m)"

definition createCorridor ::
  "mazeGenerator \<Rightarrow> grid \<Rightarrow> int \<Rightarrow> int \<Rightarrow> int \<times> int \<Rightarrow> int \<Rightarrow> grid" where
  "createCorridor gen m startX startY direction len =
     createCorridorLoop gen startX startY direction len (nat len) 1 m"

fun createStartingPathsLoop ::
  "mazeGenerator \<Rightarrow> int \<Rightarrow> int \<Rightarrow> (int \<times> int) list \<Rightarrow> nat \<Rightarrow> grid \<Rightarrow> grid" where
  "createStartingPathsLoop gen startX startY [] pathsCreated m = m"
| "createStartingPathsLoop gen startX startY (direction # rest) pathsCreated m =
     (if pathsCreated \<ge> 2 then m
      else
        (let pathX = startX + fst direction; pathY = startY + snd direction
         in if isInBounds gen pathX pathY \<and> m (pathX, pathY) = Some WALL
            then createStartingPathsLoop gen startX startY rest (Suc pathsCreated)
                   (createCorridor gen m startX startY direction 3)
            else createStartingPathsLoop gen startX startY rest pathsCreated m))"

definition createStartingPaths :: "mazeGenerator \<Rightarrow> int \<Rightarrow> int \<Rightarrow> grid \<times> rng \<Rightarrow> grid \<times> rng" where
  "createStartingPaths gen startX startY st =
     (let sh = shuffleArray [(0, -1), (1, 0), (0, 1), (-1, 0)] (snd st)
      in (createStartingPathsLoop gen startX startY (fst sh) 0 (fst st), snd sh))"

fun createStartingAreaLoop ::
  "mazeGenerator \<Rightarrow> int \<Rightarrow> int \<Rightarrow> (int \<times> int) list \<Rightarrow> grid \<Rightarrow> grid" where
  "createStartingAreaLoop gen startX startY [] m = m"
| "createStartingAreaLoop gen startX startY (dir # rest) m =
     (let pathX = startX + fst dir; pathY = startY + snd dir
      in if pathX > 1 \<and> pathX < mg_width gen - 2 \<and> pathY > 1 \<and> pathY < mg_height gen - 2 then
           (let m1 = m((pathX, pathY) \<mapsto> PATH);
                m2 = m1((startX + fst dir div 2, startY + snd dir div 2) \<mapsto> PATH)
            in createStartingAreaLoop gen startX startY rest (createCorridor gen m2 pathX pathY dir 2))
         else createStartingAreaLoop gen startX startY rest m)"

definition createStartingArea :: "mazeGenerator \<Rightarrow> grid \<Rightarrow> int \<Rightarrow> int \<Rightarrow> grid" where
  "createStartingArea gen m startX startY =
     (let cells = filter (\<lambda>(newX, newY). newX > 1 \<and> newX < mg_width gen - 2 \<and>
                                          newY > 1 \<and> newY < mg_height gen - 2)
                    (concat (map (\<lambda>dx. map (\<lambda>dy. (startX + dx, startY + dy)) [-1, 0, 1])
                                 [-1, 0, 1]))
      in createStartingAreaLoop gen startX startY [(-2, 0), (2, 0), (0, -2), (0, 2)]
           (carve m cells))"

definition ensureStartingChoices :: "mazeGenerator \<Rightarrow> grid \<times> rng \<Rightarrow> grid \<times> rng" where
  "ensureStartingChoices gen st =
     (case getAccessiblePositions gen (fst st) of
        [] \<Rightarrow> st
      | (startX, startY) # rest \<Rightarrow>
          (let st1 = (if length (getPathNeighbors gen (fst st) startX startY) < 2
                      then createStartingPaths gen startX startY st else st)
           in (createStartingArea gen (fst st1) startX startY, snd st1)))"

text \<open>
  The flood fill of \<open>validateMaze\<close>. The stack is a list with its top at the head
  (\<open>push\<close> conses, \<open>pop\<close> takes the head); \<open>visited\<close> is the set of keys, as a list.
\<close>

function floodFill ::
  "mazeGenerator \<Rightarrow> grid \<Rightarrow> (int \<times> int) list \<Rightarrow> (int \<times> int) list \<Rightarrow> (int \<times> int) list" where
  "floodFill gen m [] visited = visited"
| "floodFill gen m (current # stack) visited =
     (if current \<in> set visited then floodFill gen m stack visited
      else
        (let visited' = current # visited;
             neighbors = [(fst current, snd current - 1), (fst current + 1, snd current),
                          (fst current, snd current + 1), (fst current - 1, snd current)];
             pushed = filter (\<lambda>(nx, ny). isInBounds gen nx ny \<and> m (nx, ny) = Some PATH \<and>
                                          (nx, ny) \<notin> set visited') neighbors
         in floodFill gen m (rev pushed @ stack) visited'))"
  by pat_completeness auto

definition inBoundsCells :: "mazeGenerator \<Rightarrow> (int \<times> int) set" where
  "inBoundsCells gen = {(x, y). isInBounds gen x y}"

lemma finite_inBoundsCells: "finite (inBoundsCells gen)"
proof -
  have "inBoundsCells gen \<subseteq> {0..mg_width gen} \<times> {0..mg_height gen}"
    by (auto simp: inBoundsCells_def isInBounds_def)
  then show ?thesis by (rule finite_subset) simp
qed

termination floodFill
proof (relation "(\<lambda>(gen, m, stack, visited). card ((inBoundsCells gen \<union> set stack) - set visited))
                 <*mlex*> measure (\<lambda>(gen, m, stack, visited). length stack)", goal_cases)
  case 1
  then show ?case by (simp add: wf_mlex)
next
  case (2 gen m current stack visited)
  then show ?case by (simp add: mlex_leq)
next
  case (3 gen m current stack visited visited' neighbors pushed)
  have "set pushed \<subseteq> {p. case p of (nx, ny) \<Rightarrow> isInBounds gen nx ny}"
    unfolding 3(4) by (rule subsetI) (simp add: split_beta)
  then have sub: "set pushed \<subseteq> inBoundsCells gen"
    by (simp add: inBoundsCells_def)
  let ?old = "(inBoundsCells gen \<union> set (current # stack)) - set visited"
  let ?new = "(inBoundsCells gen \<union> set (rev pushed @ stack)) - set visited'"
  have "inBoundsCells gen \<union> set (rev pushed @ stack) \<subseteq> inBoundsCells gen \<union> set (current # stack)"
    using sub by auto
  then have "?new \<subseteq> ?old - {current}"
    unfolding 3(2) by auto
  moreover have "current \<in> ?old"
    using 3(1) by simp
  ultimately have "?new \<subset> ?old"
    by blast
  moreover have "finite ?old"
    by (simp add: finite_inBoundsCells)
  ultimately have "card ?new < card ?old"
    by (rule psubset_card_mono [rotated])
  then show ?case by (simp add: mlex_less)
qed

definition validateMaze :: "mazeGenerator \<Rightarrow> grid \<Rightarrow> js_error + unit" where
  "validateMaze gen m =
     (let pathCells = getAccessiblePositions gen m
      in if length pathCells = 0
         then Inl (Error ''Maze generation failed: No path cells found'')
         else
           (let visited = floodFill gen m [hd pathCells] []
            in if length visited \<noteq> length pathCells
               then Inl (Error ''Maze generation failed: Not all areas are reachable'')
               else Inr ()))"

text \<open>
  \<open>generate\<close>: the carving steps on the fresh all-wall grid, then \<open>validateMaze\<close>,
  which either throws or returns nothing; the grid returned is the one validated.
\<close>

definition carveMaze :: "mazeGenerator \<Rightarrow> rng \<Rightarrow> js_error + grid \<times> rng" where
  "carveMaze gen rnd =
     (case writeCell gen (initializeMaze gen) 1 1 PATH of
        Inl e \<Rightarrow> Inl e
      | Inr m1 \<Rightarrow>
          (case addPacManFeatures gen (recursiveBacktrack gen 1 1 (m1, rnd)) of
             Inl e \<Rightarrow> Inl e
           | Inr st \<Rightarrow> Inr (ensureStartingChoices gen st)))"

definition generate :: "mazeGenerator \<Rightarrow> rng \<Rightarrow> js_error + grid" where
  "generate gen rnd =
     (case carveMaze gen rnd of
        Inl e \<Rightarrow> Inl e
      | Inr st \<Rightarrow>
          (case validateMaze gen (fst st) of
             Inl e \<Rightarrow> Inl e
           | Inr u \<Rightarrow> Inr (fst st)))"

text \<open>A sample random stream: every call of \<open>Math.random()\<close> returns \<open>0\<close>.\<close>

definition rnd0 :: rng where "rnd0 = (\<lambda>i. 0)"

definition pathCell :: "mazeGenerator \<Rightarrow> grid \<Rightarrow> int \<times> int \<Rightarrow> bool" where
  "pathCell gen m p \<longleftrightarrow> isInBounds gen (fst p) (snd p) \<and> m p = Some PATH"

definition neighbors4 :: "int \<times> int \<Rightarrow> (int \<times> int) list" where
  "neighbors4 p = [(fst p, snd p - 1), (fst p + 1, snd p), (fst p, snd p + 1), (fst p - 1, snd p)]"

text \<open>Steps between 4-directionally adjacent path cells.\<close>

definition pathAdj :: "mazeGenerator \<Rightarrow> grid \<Rightarrow> ((int \<times> int) \<times> (int \<times> int)) set" where
  "pathAdj gen m = {(p, q). pathCell gen m p \<and> pathCell gen m q \<and> q \<in> set (neighbors4 p)}"

lemma neighbors4_sym: "q \<in> set (neighbors4 p) \<Longrightarrow> p \<in> set (neighbors4 q)"
  by (cases p, cases q) (auto simp: neighbors4_def)

lemma pathAdj_sym: "(p, q) \<in> pathAdj gen m \<Longrightarrow> (q, p) \<in> pathAdj gen m"
  by (simp add: pathAdj_def neighbors4_sym)

lemma pushed_filter:
  "filter (\<lambda>(nx, ny). isInBounds gen nx ny \<and> m (nx, ny) = Some PATH \<and> (nx, ny) \<notin> set vs)
      [(fst c, snd c - 1), (fst c + 1, snd c), (fst c, snd c + 1), (fst c - 1, snd c)]
   = filter (\<lambda>n. pathCell gen m n \<and> n \<notin> set vs) (neighbors4 c)"
proof -
  have "(\<lambda>(nx, ny). isInBounds gen nx ny \<and> m (nx, ny) = Some PATH \<and> (nx, ny) \<notin> set vs)
      = (\<lambda>n. pathCell gen m n \<and> n \<notin> set vs)"
    by (auto simp: pathCell_def fun_eq_iff)
  then show ?thesis
    by (simp only: neighbors4_def)
qed

lemma floodFill_step:
  assumes "current \<notin> set visited"
  shows "floodFill gen m (current # stack) visited =
     floodFill gen m
       (rev (filter (\<lambda>n. pathCell gen m n \<and> n \<notin> set (current # visited)) (neighbors4 current)) @ stack)
       (current # visited)"
  by (subst floodFill.simps(2)) (simp only: assms if_False Let_def pushed_filter)

lemma floodFill_skip:
  assumes "current \<in> set visited"
  shows "floodFill gen m (current # stack) visited = floodFill gen m stack visited"
  by (subst floodFill.simps(2)) (simp only: assms if_True)

declare floodFill.simps [simp del]

text \<open>
  The loop invariant of the flood fill: stack and visited cells are path cells inside a
  set \<open>C\<close> closed under adjacency, visited cells are distinct, and every path neighbour
  of a visited cell is visited or on the stack.
\<close>

definition closedUnder ::
  "mazeGenerator \<Rightarrow> grid \<Rightarrow> (int \<times> int) set \<Rightarrow> (int \<times> int) set \<Rightarrow> bool" where
  "closedUnder gen m S T \<longleftrightarrow> (\<forall>v\<in>S. \<forall>n\<in>set (neighbors4 v). pathCell gen m n \<longrightarrow> n \<in> T)"

definition ffInv ::
  "mazeGenerator \<Rightarrow> grid \<Rightarrow> (int \<times> int) set \<Rightarrow> (int \<times> int) list \<Rightarrow> (int \<times> int) list \<Rightarrow> bool" where
  "ffInv gen m C stack visited \<longleftrightarrow>
     set stack \<subseteq> Collect (pathCell gen m) \<and> set visited \<subseteq> Collect (pathCell gen m)
     \<and> distinct visited
     \<and> closedUnder gen m (set visited) (set visited \<union> set stack)
     \<and> set visited \<union> set stack \<subseteq> C \<and> closedUnder gen m C C"

lemma ffInv_skip:
  assumes "ffInv gen m C (current # stack) visited" and "current \<in> set visited"
  shows "ffInv gen m C stack visited"
proof -
  have "set visited \<union> set (current # stack) = set visited \<union> set stack"
    using assms(2) by auto
  then show ?thesis
    using assms(1) unfolding ffInv_def by (metis set_subset_Cons subset_trans)
qed

lemma ffInv_push:
  assumes inv: "ffInv gen m C (current # stack) visited" and new: "current \<notin> set visited"
  defines "pushed \<equiv> filter (\<lambda>n. pathCell gen m n \<and> n \<notin> set (current # visited)) (neighbors4 current)"
  shows "ffInv gen m C (rev pushed @ stack) (current # visited)"
proof -
  from inv have A: "set (current # stack) \<subseteq> Collect (pathCell gen m)"
    "set visited \<subseteq> Collect (pathCell gen m)" "distinct visited"
    "closedUnder gen m (set visited) (set visited \<union> set (current # stack))"
    "set visited \<union> set (current # stack) \<subseteq> C" "closedUnder gen m C C"
    unfolding ffInv_def by blast+
  have cur: "pathCell gen m current" "current \<in> C"
    using A(1,5) by auto
  have p: "set pushed = {n \<in> set (neighbors4 current). pathCell gen m n \<and> n \<notin> set (current # visited)}"
    unfolding pushed_def by (rule set_filter)
  have p1: "set pushed \<subseteq> Collect (pathCell gen m)"
    unfolding p by blast
  have p2: "set pushed \<subseteq> C"
    using cur(2) A(6) unfolding p closedUnder_def by blast
  have s1: "set (rev pushed @ stack) \<subseteq> Collect (pathCell gen m)"
    using p1 A(1) by simp
  have s2: "set (current # visited) \<subseteq> Collect (pathCell gen m)"
    using cur(1) A(2) by simp
  have s3: "distinct (current # visited)"
    using new A(3) by simp
  have s5: "set (current # visited) \<union> set (rev pushed @ stack) \<subseteq> C"
    using p2 A(5) by simp
  have s4: "closedUnder gen m (set (current # visited))
              (set (current # visited) \<union> set (rev pushed @ stack))"
    unfolding closedUnder_def
  proof (intro ballI impI)
    fix v n
    assume v: "v \<in> set (current # visited)" and n: "n \<in> set (neighbors4 v)" "pathCell gen m n"
    show "n \<in> set (current # visited) \<union> set (rev pushed @ stack)"
    proof (cases "v = current")
      case True
      then have "n \<in> set (current # visited) \<or> n \<in> set pushed"
        using n unfolding p by blast
      then show ?thesis by auto
    next
      case False
      with v have "v \<in> set visited" by simp
      with A(4) n have "n \<in> set visited \<union> set (current # stack)"
        unfolding closedUnder_def by blast
      then show ?thesis by auto
    qed
  qed
  show ?thesis
    unfolding ffInv_def using s1 s2 s3 s4 s5 A(6) by blast
qed

definition ffPost ::
  "mazeGenerator \<Rightarrow> grid \<Rightarrow> (int \<times> int) set \<Rightarrow> (int \<times> int) set \<Rightarrow> (int \<times> int) list \<Rightarrow> bool" where
  "ffPost gen m C S R \<longleftrightarrow>
     S \<subseteq> set R \<and> set R \<subseteq> Collect (pathCell gen m) \<and> distinct R
     \<and> closedUnder gen m (set R) (set R) \<and> set R \<subseteq> C"

lemma floodFill_post:
  "ffInv gen m C stack visited \<Longrightarrow>
     ffPost gen m C (set visited \<union> set stack) (floodFill gen m stack visited)"
proof (induction gen m stack visited rule: floodFill.induct)
  case (1 gen m visited)
  then show ?case
    by (simp add: floodFill.simps(1) ffInv_def ffPost_def)
next
  case (2 gen m current stack visited)
  show ?case
  proof (cases "current \<in> set visited")
    case True
    have "ffPost gen m C (set visited \<union> set stack) (floodFill gen m stack visited)"
      using "2.IH"(1) [OF True ffInv_skip [OF "2.prems" True]] .
    moreover have "set visited \<union> set (current # stack) = set visited \<union> set stack"
      using True by auto
    ultimately show ?thesis
      unfolding floodFill_skip [OF True] by simp
  next
    case False
    define pushed where
      "pushed = filter (\<lambda>n. pathCell gen m n \<and> n \<notin> set (current # visited)) (neighbors4 current)"
    have inv': "ffInv gen m C (rev pushed @ stack) (current # visited)"
      unfolding pushed_def by (rule ffInv_push [OF "2.prems" False])
    have post: "ffPost gen m C (set (current # visited) \<union> set (rev pushed @ stack))
                  (floodFill gen m (rev pushed @ stack) (current # visited))"
      using "2.IH"(2) [OF False refl refl refl, unfolded pushed_filter, folded pushed_def, OF inv'] .
    have sub: "set visited \<union> set (current # stack)
                 \<subseteq> set (current # visited) \<union> set (rev pushed @ stack)"
      by auto
    have step: "floodFill gen m (current # stack) visited
        = floodFill gen m (rev pushed @ stack) (current # visited)"
      unfolding pushed_def by (rule floodFill_step [OF False])
    show ?thesis
      unfolding step using post sub unfolding ffPost_def by (meson subset_trans)
  qed
qed

lemma reach_pathCell:
  "(p, q) \<in> (pathAdj gen m)\<^sup>* \<Longrightarrow> pathCell gen m p \<Longrightarrow> pathCell gen m q"
  by (induction rule: rtrancl_induct) (auto simp: pathAdj_def)

lemma floodFill_reach:
  assumes "pathCell gen m p"
  shows "set (floodFill gen m [p] []) = {q. (p, q) \<in> (pathAdj gen m)\<^sup>*}"
    and "distinct (floodFill gen m [p] [])"
proof -
  define C where "C = {q. (p, q) \<in> (pathAdj gen m)\<^sup>*}"
  define R where "R = floodFill gen m [p] []"
  have cc: "closedUnder gen m C C"
    unfolding closedUnder_def
  proof (intro ballI impI)
    fix v n assume v: "v \<in> C" and n: "n \<in> set (neighbors4 v)" "pathCell gen m n"
    from v have pv: "(p, v) \<in> (pathAdj gen m)\<^sup>*" by (simp add: C_def)
    then have "pathCell gen m v" using assms by (rule reach_pathCell)
    with n have "(v, n) \<in> pathAdj gen m" by (simp add: pathAdj_def)
    with pv show "n \<in> C" by (simp add: C_def)
  qed
  have "ffInv gen m C [p] []"
    using assms cc by (simp add: ffInv_def closedUnder_def C_def)
  from floodFill_post [OF this]
  have post: "p \<in> set R" "set R \<subseteq> Collect (pathCell gen m)" "distinct R"
    "closedUnder gen m (set R) (set R)" "set R \<subseteq> C"
    unfolding ffPost_def R_def by simp_all
  have "q \<in> set R" if "(p, q) \<in> (pathAdj gen m)\<^sup>*" for q
    using that
  proof (induction rule: rtrancl_induct)
    case base
    then show ?case by (rule post(1))
  next
    case (step y z)
    then show ?case
      using post(4) unfolding closedUnder_def pathAdj_def by blast
  qed
  then have "C \<subseteq> set R" by (auto simp: C_def)
  with post(5) show "set (floodFill gen m [p] []) = {q. (p, q) \<in> (pathAdj gen m)\<^sup>*}"
    unfolding R_def C_def by blast
  show "distinct (floodFill gen m [p] [])"
    using post(3) by (simp add: R_def)
qed

lemma distinct_concat_map:
  assumes "distinct xs" and "\<And>x. x \<in> set xs \<Longrightarrow> distinct (f x)"
    and "\<And>x y. x \<in> set xs \<Longrightarrow> y \<in> set xs \<Longrightarrow> x \<noteq> y \<Longrightarrow> set (f x) \<inter> set (f y) = {}"
  shows "distinct (concat (map f xs))"
  using assms
proof (induction xs)
  case Nil
  then show ?case by simp
next
  case (Cons a xs)
  have "set (f a) \<inter> set (f y) = {}" if "y \<in> set xs" for y
    using Cons.prems(1) Cons.prems(3) [of a y] that by auto
  then have "set (f a) \<inter> (\<Union>y\<in>set xs. set (f y)) = {}" by blast
  moreover have "distinct (concat (map f xs))"
    using Cons by simp
  ultimately show ?case
    using Cons.prems(2) by simp
qed

lemma set_getAccessiblePositions:
  "set (getAccessiblePositions gen m) = Collect (pathCell gen m)"
  by (auto simp: getAccessiblePositions_def pathCell_def isInBounds_def)

lemma distinct_getAccessiblePositions: "distinct (getAccessiblePositions gen m)"
  unfolding getAccessiblePositions_def
  by (rule distinct_concat_map) (auto simp: distinct_map inj_on_def)

text \<open>What a passed validation means.\<close>

lemma validateMaze_connected:
  assumes "validateMaze gen m = Inr ()"
  shows "(\<exists>p. pathCell gen m p)"
    and "pathCell gen m p \<Longrightarrow> pathCell gen m q \<Longrightarrow> (p, q) \<in> (pathAdj gen m)\<^sup>*"
    and "pathCell gen m p \<Longrightarrow> set (floodFill gen m [p] []) = Collect (pathCell gen m)"
proof -
  define cells where "cells = getAccessiblePositions gen m"
  define R where "R = floodFill gen m [hd cells] []"
  from assms have ne: "cells \<noteq> []" and len: "length R = length cells"
    unfolding validateMaze_def Let_def cells_def R_def by (auto split: if_splits)
  have cs: "set cells = Collect (pathCell gen m)" "distinct cells"
    by (simp_all add: cells_def set_getAccessiblePositions distinct_getAccessiblePositions)
  define s where "s = hd cells"
  have s: "pathCell gen m s"
    using ne cs(1) unfolding s_def by (metis hd_in_set mem_Collect_eq)
  then show "\<exists>p. pathCell gen m p" ..
  have R: "set R = {q. (s, q) \<in> (pathAdj gen m)\<^sup>*}" "distinct R"
    using floodFill_reach [OF s] by (simp_all add: R_def s_def)
  have "set R \<subseteq> set cells"
    unfolding R(1) cs(1) using reach_pathCell [OF _ s] by blast
  moreover have "card (set R) = card (set cells)"
    using len R(2) cs(2) by (simp add: distinct_card)
  ultimately have all: "set R = set cells"
    by (intro card_subset_eq) simp_all
  have from_s: "(s, q) \<in> (pathAdj gen m)\<^sup>*" if "pathCell gen m q" for q
    using that all R(1) cs(1) by blast
  have sym: "(b, a) \<in> (pathAdj gen m)\<^sup>*" if "(a, b) \<in> (pathAdj gen m)\<^sup>*" for a b
    using that
  proof (induction rule: rtrancl_induct)
    case base
    then show ?case by simp
  next
    case (step y z)
    from step(2) have "(z, y) \<in> pathAdj gen m" by (rule pathAdj_sym)
    with step(3) show ?case by (meson converse_rtrancl_into_rtrancl)
  qed
  show conn: "(p, q) \<in> (pathAdj gen m)\<^sup>*" if "pathCell gen m p" "pathCell gen m q" for p q
    using sym [OF from_s [OF that(1)]] from_s [OF that(2)] by (rule rtrancl_trans)
  show "set (floodFill gen m [p] []) = Collect (pathCell gen m)" if "pathCell gen m p"
  proof -
    have "{q. (p, q) \<in> (pathAdj gen m)\<^sup>*} = Collect (pathCell gen m)"
      using conn [OF that] reach_pathCell [OF _ that] by blast
    then show ?thesis
      using floodFill_reach(1) [OF that] by simp
  qed
qed

text \<open>
  C1. For every width, height and random stream, \<open>generate\<close> is total and either throws
  (\<open>Inl\<close>) or returns a grid; a returned grid is exactly the carved grid that
  \<open>validateMaze\<close> accepted (validation changes nothing), it has a path cell, a flood fill
  started from any path cell visits exactly the set of all path cells, and any two path
  cells are joined by a chain of 4-directionally adjacent path cells.
\<close>

theorem generate_connected_or_throws:
  assumes "generate gen rnd = Inr m"
  shows "(\<exists>st. carveMaze gen rnd = Inr st \<and> m = fst st)
       \<and> validateMaze gen m = Inr ()
       \<and> (\<exists>p. pathCell gen m p)
       \<and> (\<forall>p. pathCell gen m p \<longrightarrow> set (floodFill gen m [p] []) = Collect (pathCell gen m))
       \<and> (\<forall>p q. pathCell gen m p \<and> pathCell gen m q \<longrightarrow> (p, q) \<in> (pathAdj gen m)\<^sup>*)"
proof -
  from assms obtain st where st: "carveMaze gen rnd = Inr st" "m = fst st"
    and v: "validateMaze gen (fst st) = Inr ()"
    unfolding generate_def by (auto split: sum.splits)
  have v': "validateMaze gen m = Inr ()" using v st(2) by simp
  show ?thesis
    using st v' validateMaze_connected [OF v'] by blast
qed

lemma generate_5x5_returns:
  "(case generate (MazeGenerator 5 5) rnd0 of Inl e \<Rightarrow> False | Inr m \<Rightarrow> True)"
  by code_simp

theorem generate_connected_or_throws_witness:
  "\<exists>m. generate (MazeGenerator 5 5) rnd0 = Inr m
     \<and> validateMaze (MazeGenerator 5 5) m = Inr ()
     \<and> (\<exists>p. pathCell (MazeGenerator 5 5) m p)"
proof -
  from generate_5x5_returns obtain m where m: "generate (MazeGenerator 5 5) rnd0 = Inr m"
    by (cases "generate (MazeGenerator 5 5) rnd0") simp_all
  from generate_connected_or_throws [OF m] m show ?thesis by blast
qed

lemma generate_3x5_cells:
  "(case generate (MazeGenerator 3 5) rnd0 of
      Inl e \<Rightarrow> False
    | Inr m \<Rightarrow> m (0, 2) = Some PATH \<and> m (2, 2) = Some PATH)"
  by code_simp

text \<open>
  C6 fails on the code for a maze of width 3: \<open>createEdgeTunnels\<close> writes columns
  \<open>2\<close> and \<open>width - 3\<close> of the middle row without a width guard, and for width 3 these
  are the border columns. \<open>new MazeGenerator(3, 5).generate()\<close> returns a grid whose
  border cells \<open>(0, 2)\<close> and \<open>(2, 2)\<close> are path cells.
\<close>

theorem border_open_3x5:
  "\<exists>m. generate (MazeGenerator 3 5) rnd0 = Inr m
     \<and> mg_width (MazeGenerator 3 5) = 3 \<and> mg_height (MazeGenerator 3 5) = 5
     \<and> m (0, 2) = Some PATH \<and> m (2, 2) = Some PATH"
proof -
  from generate_3x5_cells obtain m where "generate (MazeGenerator 3 5) rnd0 = Inr m"
    "m (0, 2) = Some PATH" "m (2, 2) = Some PATH"
    by (cases "generate (MazeGenerator 3 5) rnd0") simp_all
  then show ?thesis by (auto simp: MazeGenerator_def)
qed


subsection \<open>A* path planning (Enemy.js)\<close>

type_synonym node = "int \<times> int"

definition heuristic :: "node \<Rightarrow> node \<Rightarrow> int" where
  "heuristic a b = \<bar>fst a - fst b\<bar> + \<bar>snd a - snd b\<bar>"

definition getNeighbors :: "renderer \<Rightarrow> node \<Rightarrow> node list" where
  "getNeighbors r n =
     filter (\<lambda>(nx, ny). let (wx, wy) = gridToWorld r nx ny in \<not> isWallAtPosition r wx wy)
       (map (\<lambda>(dx, dy). (fst n + dx, snd n + dy)) [(0, -1), (1, 0), (0, 1), (-1, 0)])"

text \<open>
  The search state. \<open>closedSet\<close>, \<open>cameFrom\<close>, \<open>gScore\<close> and \<open>fScore\<close> are keyed by
  the string \<open>x,y\<close>, which is one-to-one on integer cells, so the cell is the key. A
  missing score is \<open>undefined\<close>; comparisons with it are false and arithmetic on it
  gives \<open>NaN\<close>, which behaves the same, so both are \<open>None\<close>.
\<close>

record astar =
  openSet :: "node list"
  closedSet :: "node set"
  cameFrom :: "node \<rightharpoonup> node"
  gScore :: "node \<rightharpoonup> int"
  fScore :: "node \<rightharpoonup> int"

definition lessNum :: "int option \<Rightarrow> int option \<Rightarrow> bool" where
  "lessNum a b = (case (a, b) of (Some x, Some y) \<Rightarrow> x < y | _ \<Rightarrow> False)"

definition geNum :: "int option \<Rightarrow> int option \<Rightarrow> bool" where
  "geNum a b = (case (a, b) of (Some x, Some y) \<Rightarrow> x \<ge> y | _ \<Rightarrow> False)"

text \<open>The scan for the node with the lowest \<open>fScore\<close>; \<open>i\<close> is the loop index.\<close>

fun lowestF :: "(node \<rightharpoonup> int) \<Rightarrow> node list \<Rightarrow> nat \<Rightarrow> node \<times> nat \<Rightarrow> node \<times> nat" where
  "lowestF f [] i cur = cur"
| "lowestF f (n # ns) i cur =
     lowestF f ns (Suc i) (if lessNum (f n) (f (fst cur)) then (n, i) else cur)"

text \<open>The body of the loop over the neighbours of \<open>current\<close>.\<close>

definition relaxNeighbor :: "node \<Rightarrow> node \<Rightarrow> astar \<Rightarrow> node \<Rightarrow> astar" where
  "relaxNeighbor goal current s neighbor =
     (if neighbor \<in> closedSet s then s
      else
        (let tentativeGScore = map_option (\<lambda>g. g + 1) (gScore s current);
             assign = (\<lambda>s'. s'\<lparr>cameFrom := (cameFrom s')(neighbor \<mapsto> current),
                                 gScore := (gScore s')(neighbor := tentativeGScore),
                                 fScore := (fScore s')(neighbor :=
                                    map_option (\<lambda>g. g + heuristic neighbor goal) tentativeGScore)\<rparr>)
         in if neighbor \<notin> set (openSet s) then assign (s\<lparr>openSet := openSet s @ [neighbor]\<rparr>)
            else if geNum tentativeGScore (gScore s neighbor) then s
            else assign s))"

text \<open>
  \<open>reconstructPath\<close> follows \<open>cameFrom\<close> until a cell has no entry, and the main loop
  runs until the open set is empty or the goal is taken; neither has a bound written
  in the code, so both are partial functions and \<open>None\<close> means that the loop does not
  return.
\<close>

partial_function (option) reconstructLoop :: "(node \<rightharpoonup> node) \<Rightarrow> node \<Rightarrow> node list \<Rightarrow> node list option" where
  "reconstructLoop cf current path =
     (case cf current of
        None \<Rightarrow> Some path
      | Some previous \<Rightarrow> reconstructLoop cf previous (previous # path))"

declare reconstructLoop.simps [code]

definition reconstructPath :: "(node \<rightharpoonup> node) \<Rightarrow> node \<Rightarrow> node list option" where
  "reconstructPath cf current = reconstructLoop cf current [current]"

partial_function (option) aStarLoop :: "renderer \<Rightarrow> node \<Rightarrow> astar \<Rightarrow> node list option" where
  "aStarLoop r goal s =
     (case openSet s of
        [] \<Rightarrow> Some []
      | first # rest \<Rightarrow>
          (let sel = lowestF (fScore s) rest 1 (first, 0);
               current = fst sel; currentIndex = snd sel;
               s1 = s\<lparr>openSet := take currentIndex (openSet s) @ drop (Suc currentIndex) (openSet s),
                      closedSet := insert current (closedSet s)\<rparr>
           in if current = goal then reconstructPath (cameFrom s1) current
              else aStarLoop r goal (foldl (relaxNeighbor goal current) s1 (getNeighbors r current))))"

declare aStarLoop.simps [code]

definition findPathAStar :: "renderer option \<Rightarrow> node \<Rightarrow> node \<Rightarrow> node list option" where
  "findPathAStar mr start goal =
     (case mr of
        None \<Rightarrow> Some []
      | Some r \<Rightarrow>
          aStarLoop r goal
            \<lparr>openSet = [start], closedSet = {}, cameFrom = Map.empty,
             gScore = [start \<mapsto> 0], fScore = [start \<mapsto> heuristic start goal]\<rparr>)"

text \<open>Paths on the grid: consecutive cells are 4-directionally adjacent and every cell
  entered is a non-wall cell of the maze.\<close>

definition adjacent :: "node \<Rightarrow> node \<Rightarrow> bool" where
  "adjacent a b = (\<bar>fst a - fst b\<bar> + \<bar>snd a - snd b\<bar> = 1)"

definition openCell :: "renderer \<Rightarrow> node \<Rightarrow> bool" where
  "openCell r c =
     (case maze r of
        None \<Rightarrow> True
      | Some m \<Rightarrow> 0 \<le> fst c \<and> fst c < mazeWidth r \<and> 0 \<le> snd c \<and> snd c < mazeHeight r
                  \<and> m c \<noteq> Some 1)"

fun gridPath :: "renderer \<Rightarrow> node list \<Rightarrow> bool" where
  "gridPath r [] = True"
| "gridPath r [a] = True"
| "gridPath r (a # b # xs) = (adjacent a b \<and> openCell r b \<and> gridPath r (b # xs))"

definition pathBetween :: "renderer \<Rightarrow> node \<Rightarrow> node \<Rightarrow> node list \<Rightarrow> bool" where
  "pathBetween r a b xs = (xs \<noteq> [] \<and> hd xs = a \<and> last xs = b \<and> gridPath r xs)"

lemma floor_cell_center:
  fixes c :: real
  assumes "0 < c"
  shows "\<lfloor>(of_int g * c + c / 2) / c\<rfloor> = g"
  using floor_center_plus [OF assms, of 0 g] assms by simp

lemma worldToGrid_center:
  assumes "0 < cellSize r"
  shows "worldToGrid r (of_int nx * cellSize r + cellSize r / 2)
           (of_int ny * cellSize r + cellSize r / 2) = (nx, ny)"
  unfolding worldToGrid_def by (simp only: floor_cell_center [OF assms])

lemma openCell_iff_not_wall:
  assumes "0 < cellSize r"
  shows "(let (wx, wy) = gridToWorld r nx ny in \<not> isWallAtPosition r wx wy) = openCell r (nx, ny)"
  by (cases "maze r")
     (auto simp add: isWallAtPosition_def gridToWorld_def openCell_def
        worldToGrid_center [OF assms])

lemma adjacent_cases:
  "adjacent a b \<longleftrightarrow> b = (fst a + 0, snd a + (-1)) \<or> b = (fst a + 1, snd a + 0)
       \<or> b = (fst a + 0, snd a + 1) \<or> b = (fst a + (-1), snd a + 0)"
  unfolding adjacent_def by (cases a, cases b) (simp, arith)

lemma getNeighbors_iff:
  assumes "0 < cellSize r"
  shows "b \<in> set (getNeighbors r a) \<longleftrightarrow> adjacent a b \<and> openCell r b"
proof -
  have "b \<in> set (getNeighbors r a) \<longleftrightarrow>
        b \<in> set (map (\<lambda>(dx, dy). (fst a + dx, snd a + dy)) [(0, -1), (1, 0), (0, 1), (-1, 0)])
        \<and> openCell r b"
    unfolding getNeighbors_def set_filter
    using openCell_iff_not_wall [OF assms] by (cases b) simp
  also have "\<dots> \<longleftrightarrow> adjacent a b \<and> openCell r b"
    unfolding adjacent_cases by auto
  finally show ?thesis .
qed

lemma heuristic_step: "adjacent a b \<Longrightarrow> heuristic a t \<le> heuristic b t + 1"
  unfolding adjacent_def heuristic_def by arith

lemma heuristic_path:
  "gridPath r xs \<Longrightarrow> xs \<noteq> [] \<Longrightarrow> heuristic (hd xs) t \<le> heuristic (last xs) t + int (length xs) - 1"
proof (induction r xs rule: gridPath.induct)
  case (3 r a b xs)
  then have "heuristic b t \<le> heuristic (last (b # xs)) t + int (length (b # xs)) - 1" by simp
  moreover have "heuristic a t \<le> heuristic b t + 1" using 3 by (simp add: heuristic_step)
  ultimately show ?case by simp
qed simp_all

lemma heuristic_self [simp]: "heuristic a a = 0"
  by (simp add: heuristic_def)

lemma heuristic_nonneg: "0 \<le> heuristic a b"
  by (simp add: heuristic_def)

lemma gridPath_snoc:
  "gridPath r xs \<Longrightarrow> xs \<noteq> [] \<Longrightarrow> adjacent (last xs) b \<Longrightarrow> openCell r b \<Longrightarrow> gridPath r (xs @ [b])"
  by (induction r xs rule: gridPath.induct) simp_all

lemma pathBetween_snoc:
  "pathBetween r a p xs \<Longrightarrow> adjacent p b \<Longrightarrow> openCell r b \<Longrightarrow> pathBetween r a b (xs @ [b])"
  unfolding pathBetween_def by (auto simp add: gridPath_snoc)

lemma pathBetween_length:
  "pathBetween r a b xs \<Longrightarrow> heuristic a b + 1 \<le> int (length xs)"
  unfolding pathBetween_def using heuristic_path [of r xs b] by auto

text \<open>The scan returns an entry of the open list with the least score.\<close>

lemma lowestF_min:
  assumes "\<forall>m \<in> set (pre @ ns). f m \<noteq> None" "i = length pre" "j < i" "(pre @ ns) ! j = c"
    "\<forall>m \<in> set pre. the (f c) \<le> the (f m)"
  shows "snd (lowestF f ns i (c, j)) < length (pre @ ns)
       \<and> (pre @ ns) ! snd (lowestF f ns i (c, j)) = fst (lowestF f ns i (c, j))
       \<and> (\<forall>m \<in> set (pre @ ns). the (f (fst (lowestF f ns i (c, j)))) \<le> the (f m))"
  using assms
proof (induction ns arbitrary: pre i c j)
  case Nil
  then show ?case by simp
next
  case (Cons n ns)
  have cin: "c \<in> set (pre @ n # ns)"
    using Cons.prems(2,3,4) by (metis length_append nth_mem trans_less_add1)
  have "f n \<noteq> None" "f c \<noteq> None"
    using Cons.prems(1) cin by auto
  then obtain fn fc where fn: "f n = Some fn" and fc: "f c = Some fc"
    by blast
  let ?cur = "if lessNum (f n) (f c) then (n, i) else (c, j)"
  have step: "lowestF f (n # ns) i (c, j) = lowestF f ns (Suc i) (fst ?cur, snd ?cur)"
    by simp
  have a1: "\<forall>m \<in> set ((pre @ [n]) @ ns). f m \<noteq> None" using Cons.prems(1) by simp
  have a2: "Suc i = length (pre @ [n])" using Cons.prems(2) by simp
  have a3: "snd ?cur < Suc i" using Cons.prems(3) by simp
  have a4: "((pre @ [n]) @ ns) ! snd ?cur = fst ?cur"
    using Cons.prems(2,3,4) by (auto simp add: nth_append)
  have a5: "\<forall>m \<in> set (pre @ [n]). the (f (fst ?cur)) \<le> the (f m)"
    using Cons.prems(5) fn fc by (auto simp add: lessNum_def)
  from Cons.IH [OF a1 a2 a3 a4 a5] show ?case
    unfolding step by simp
qed

lemma set_remove_nth:
  "distinct xs \<Longrightarrow> i < length xs \<Longrightarrow> set (take i xs @ drop (Suc i) xs) = set xs - {xs ! i}"
proof -
  assume d: "distinct xs" and i: "i < length xs"
  have xs: "xs = take i xs @ xs ! i # drop (Suc i) xs"
    using i by (simp add: id_take_nth_drop)
  have "distinct (take i xs @ xs ! i # drop (Suc i) xs)" using d xs by simp
  then have "xs ! i \<notin> set (take i xs) \<and> xs ! i \<notin> set (drop (Suc i) xs)" by auto
  moreover have "set xs = set (take i xs) \<union> {xs ! i} \<union> set (drop (Suc i) xs)"
    by (subst xs) auto
  ultimately show ?thesis by auto
qed

lemma distinct_remove_nth:
  assumes "distinct xs"
  shows "distinct (take i xs @ drop (Suc i) xs)"
proof -
  have "distinct (take i xs @ drop i xs)" using assms by simp
  then have "set (take i xs) \<inter> set (drop i xs) = {}"
    by (simp only: distinct_append)
  moreover have "set (drop (Suc i) xs) \<subseteq> set (drop i xs)"
    by (rule set_drop_subset_set_drop) simp
  ultimately have "set (take i xs) \<inter> set (drop (Suc i) xs) = {}" by blast
  then show ?thesis using assms by simp
qed

text \<open>
  The invariant of the main loop. Every cell in the open list or the closed set has a
  score that is the length of an actual path from the start, and a predecessor in the
  closed set one step before it; a closed cell has the least score of any path to it;
  and every open neighbour of a closed cell is known with a score at most one more.
  While the neighbours of the cell just closed are being visited, the last part is
  suspended for the pairs in \<open>X\<close>.
\<close>

definition nodeOk :: "renderer \<Rightarrow> node \<Rightarrow> node \<Rightarrow> astar \<Rightarrow> node \<Rightarrow> bool" where
  "nodeOk r start goal s n =
     (\<exists>g. gScore s n = Some g \<and> fScore s n = Some (g + heuristic n goal)
        \<and> (\<exists>xs. pathBetween r start n xs \<and> int (length xs) = g + 1)
        \<and> (n \<noteq> start \<longrightarrow>
             (\<exists>p. cameFrom s n = Some p \<and> p \<in> closedSet s \<and> adjacent p n \<and> openCell r n
                \<and> gScore s p = Some (g - 1))))"

definition closedOpt :: "renderer \<Rightarrow> node \<Rightarrow> astar \<Rightarrow> node \<Rightarrow> bool" where
  "closedOpt r start s n =
     (\<forall>g xs. gScore s n = Some g \<longrightarrow> pathBetween r start n xs \<longrightarrow> g + 1 \<le> int (length xs))"

definition edgeOk :: "astar \<Rightarrow> node \<Rightarrow> node \<Rightarrow> bool" where
  "edgeOk s n b =
     (b \<in> set (openSet s) \<union> closedSet s
      \<and> (\<exists>g gb. gScore s n = Some g \<and> gScore s b = Some gb \<and> gb \<le> g + 1))"

definition astarInv :: "renderer \<Rightarrow> node \<Rightarrow> node \<Rightarrow> (node \<times> node) set \<Rightarrow> astar \<Rightarrow> bool" where
  "astarInv r start goal X s =
     (distinct (openSet s) \<and> set (openSet s) \<inter> closedSet s = {}
      \<and> (start \<in> closedSet s \<or> (openSet s = [start] \<and> closedSet s = {}))
      \<and> gScore s start = Some 0 \<and> cameFrom s start = None
      \<and> (\<forall>n \<in> set (openSet s) \<union> closedSet s. nodeOk r start goal s n)
      \<and> (\<forall>n \<in> closedSet s. closedOpt r start s n)
      \<and> (\<forall>n \<in> closedSet s. \<forall>b. adjacent n b \<longrightarrow> openCell r b \<longrightarrow> (n, b) \<notin> X \<longrightarrow> edgeOk s n b))"

lemma astarInvD:
  assumes "astarInv r start goal X s"
  shows "distinct (openSet s)" "set (openSet s) \<inter> closedSet s = {}"
    "start \<in> closedSet s \<or> (openSet s = [start] \<and> closedSet s = {})"
    "gScore s start = Some 0" "cameFrom s start = None"
    "\<And>n. n \<in> set (openSet s) \<union> closedSet s \<Longrightarrow> nodeOk r start goal s n"
    "\<And>n. n \<in> closedSet s \<Longrightarrow> closedOpt r start s n"
    "\<And>n b. n \<in> closedSet s \<Longrightarrow> adjacent n b \<Longrightarrow> openCell r b \<Longrightarrow> (n, b) \<notin> X \<Longrightarrow> edgeOk s n b"
  using assms unfolding astarInv_def by blast+

lemma astarInvI:
  assumes "distinct (openSet s)" "set (openSet s) \<inter> closedSet s = {}"
    "start \<in> closedSet s \<or> (openSet s = [start] \<and> closedSet s = {})"
    "gScore s start = Some 0" "cameFrom s start = None"
    "\<And>n. n \<in> set (openSet s) \<union> closedSet s \<Longrightarrow> nodeOk r start goal s n"
    "\<And>n. n \<in> closedSet s \<Longrightarrow> closedOpt r start s n"
    "\<And>n b. n \<in> closedSet s \<Longrightarrow> adjacent n b \<Longrightarrow> openCell r b \<Longrightarrow> (n, b) \<notin> X \<Longrightarrow> edgeOk s n b"
  shows "astarInv r start goal X s"
  using assms unfolding astarInv_def by blast

text \<open>Some cell of the open list lies on every path that leaves the closed set.\<close>

lemma frontier:
  assumes inv: "astarInv r start goal {} s"
  shows "gridPath r xs \<Longrightarrow> xs \<noteq> [] \<Longrightarrow> hd xs \<in> set (openSet s) \<union> closedSet s
    \<Longrightarrow> gScore s (hd xs) = Some ga \<Longrightarrow> last xs \<notin> closedSet s
    \<Longrightarrow> \<exists>m \<in> set (openSet s). \<exists>gm. gScore s m = Some gm
          \<and> gm + heuristic m goal \<le> ga + int (length xs) - 1 + heuristic (last xs) goal"
proof (induction xs arbitrary: ga rule: induct_list012)
  case 1
  then show ?case by simp
next
  case (2 a)
  then have "a \<in> set (openSet s)" by simp
  then show ?case using 2 by auto
next
  case (3 a b xs)
  have ab: "adjacent a b" "openCell r b" and bp: "gridPath r (b # xs)"
    using 3(3) by simp_all
  have ga: "gScore s a = Some ga" using 3(6) by simp
  show ?case
  proof (cases "a \<in> closedSet s")
    case True
    have "edgeOk s a b"
      using astarInvD(8) [OF inv True ab] by simp
    then obtain gb where b: "b \<in> set (openSet s) \<union> closedSet s" "gScore s b = Some gb" "gb \<le> ga + 1"
      using ga unfolding edgeOk_def by auto
    have "\<exists>m \<in> set (openSet s). \<exists>gm. gScore s m = Some gm
          \<and> gm + heuristic m goal \<le> gb + int (length (b # xs)) - 1 + heuristic (last (b # xs)) goal"
      using 3(2) [of gb] bp 3(7) b by simp
    then obtain m gm where "m \<in> set (openSet s)" "gScore s m = Some gm"
      "gm + heuristic m goal \<le> gb + int (length (b # xs)) - 1 + heuristic (last (b # xs)) goal"
      by blast
    then show ?thesis using b(3) by (intro bexI [of _ m] exI [of _ gm]) auto
  next
    case False
    then have "a \<in> set (openSet s)" using 3(5) by simp
    moreover have "heuristic a goal \<le> heuristic (last (a # b # xs)) goal + int (length (a # b # xs)) - 1"
      using heuristic_path [OF 3(3), of goal] by simp
    ultimately show ?thesis using ga by (intro bexI [of _ a] exI [of _ ga]) auto
  qed
qed

lemma inv_edge_done:
  assumes "astarInv r start goal X s" "edgeOk s n b"
  shows "astarInv r start goal (X - {(n, b)}) s"
proof (rule astarInvI)
  fix n' b'
  assume "n' \<in> closedSet s" "adjacent n' b'" "openCell r b'" "(n', b') \<notin> X - {(n, b)}"
  then show "edgeOk s n' b'"
    using astarInvD(8) [OF assms(1), of n' b'] assms(2) by auto
qed (use astarInvD [OF assms(1)] in blast)+

lemma inv_record:
  assumes inv: "astarInv r start goal X s" and cur: "current \<in> closedSet s"
    and adj: "adjacent current nb" and oc: "openCell r nb" and ncl: "nb \<notin> closedSet s"
    and gc: "gScore s current = Some gc"
    and better: "\<And>gb. nb \<in> set (openSet s) \<Longrightarrow> gScore s nb = Some gb \<Longrightarrow> gc + 1 \<le> gb"
    and O: "distinct (openSet s')" "set (openSet s') = insert nb (set (openSet s))"
    and C: "closedSet s' = closedSet s"
    and F: "cameFrom s' = (cameFrom s)(nb \<mapsto> current)"
    and G: "gScore s' = (gScore s)(nb \<mapsto> gc + 1)"
    and H: "fScore s' = (fScore s)(nb \<mapsto> gc + 1 + heuristic nb goal)"
  shows "astarInv r start goal (X - {(current, nb)}) s'"
proof (rule astarInvI)
  note D = astarInvD [OF inv]
  have stc: "start \<in> closedSet s" using D(3) cur by auto
  then have nst: "nb \<noteq> start" using ncl by auto
  show "distinct (openSet s')" by (rule O(1))
  show "set (openSet s') \<inter> closedSet s' = {}" using D(2) ncl O(2) C by auto
  show "start \<in> closedSet s' \<or> (openSet s' = [start] \<and> closedSet s' = {})" using stc C by simp
  show "gScore s' start = Some 0" using D(4) nst G by simp
  show "cameFrom s' start = None" using D(5) nst F by simp
  have "nodeOk r start goal s current" using D(6) cur by simp
  then obtain xc where xc: "pathBetween r start current xc" "int (length xc) = gc + 1"
    using gc unfolding nodeOk_def by auto
  have pnb: "pathBetween r start nb (xc @ [nb])" "int (length (xc @ [nb])) = (gc + 1) + 1"
    using pathBetween_snoc [OF xc(1) adj oc] xc(2) by simp_all
  have cnb: "current \<noteq> nb" using cur ncl by auto
  show "nodeOk r start goal s' n" if n: "n \<in> set (openSet s') \<union> closedSet s'" for n
  proof (cases "n = nb")
    case True
    show ?thesis
      unfolding nodeOk_def True
      by (rule exI [of _ "gc + 1"]) (use pnb cur adj oc gc cnb G H F C in auto)
  next
    case False
    then have "nodeOk r start goal s n" using n O(2) C D(6) [of n] by auto
    then obtain g where g: "gScore s n = Some g" "fScore s n = Some (g + heuristic n goal)"
        "\<exists>xs. pathBetween r start n xs \<and> int (length xs) = g + 1"
        "n \<noteq> start \<longrightarrow> (\<exists>p. cameFrom s n = Some p \<and> p \<in> closedSet s \<and> adjacent p n \<and> openCell r n
                \<and> gScore s p = Some (g - 1))"
      unfolding nodeOk_def by blast
    have "n \<noteq> start \<longrightarrow> (\<exists>p. cameFrom s' n = Some p \<and> p \<in> closedSet s' \<and> adjacent p n \<and> openCell r n
                \<and> gScore s' p = Some (g - 1))"
    proof
      assume "n \<noteq> start"
      then obtain p where p: "cameFrom s n = Some p" "p \<in> closedSet s" "adjacent p n" "openCell r n"
          "gScore s p = Some (g - 1)"
        using g(4) by blast
      have "p \<noteq> nb" using p(2) ncl by auto
      then show "\<exists>p. cameFrom s' n = Some p \<and> p \<in> closedSet s' \<and> adjacent p n \<and> openCell r n
                \<and> gScore s' p = Some (g - 1)"
        using p False F G C by (intro exI [of _ p]) simp
    qed
    then show ?thesis
      unfolding nodeOk_def using g(1,2,3) False G H by (intro exI [of _ g]) simp
  qed
  show "closedOpt r start s' n" if n: "n \<in> closedSet s'" for n
  proof -
    have "n \<noteq> nb" using n ncl C by auto
    then show ?thesis using D(7) [of n] n C G unfolding closedOpt_def by simp
  qed
  show "edgeOk s' n b"
    if n: "n \<in> closedSet s'" and a: "adjacent n b" "openCell r b" and x: "(n, b) \<notin> X - {(current, nb)}"
    for n b
  proof -
    have nn: "n \<noteq> nb" "n \<in> closedSet s" using n ncl C by auto
    show ?thesis
    proof (cases "b = nb")
      case True
      show ?thesis
      proof (cases "n = current")
        case True
        then show ?thesis unfolding edgeOk_def using \<open>b = nb\<close> gc G O(2) cnb by simp
      next
        case False
        then have "edgeOk s n nb" using D(8) [OF nn(2)] a x True by auto
        then obtain g gb where e: "nb \<in> set (openSet s) \<union> closedSet s" "gScore s n = Some g"
            "gScore s nb = Some gb" "gb \<le> g + 1"
          unfolding edgeOk_def by blast
        have "gc + 1 \<le> gb" using better [of gb] e(1,3) ncl by simp
        then show ?thesis unfolding edgeOk_def True using e nn(1) G O(2) by simp
      qed
    next
      case False
      then have "edgeOk s n b" using D(8) [OF nn(2)] a x by auto
      then show ?thesis unfolding edgeOk_def using False nn(1) G O(2) C by auto
    qed
  qed
qed

lemma relax_inv:
  assumes inv: "astarInv r start goal X s" and cur: "current \<in> closedSet s"
    and adj: "adjacent current nb" and oc: "openCell r nb"
  shows "astarInv r start goal (X - {(current, nb)}) (relaxNeighbor goal current s nb)
       \<and> closedSet (relaxNeighbor goal current s nb) = closedSet s"
proof -
  note D = astarInvD [OF inv]
  have "nodeOk r start goal s current" using D(6) cur by simp
  then obtain gc xc where gc: "gScore s current = Some gc"
      and xc: "pathBetween r start current xc" "int (length xc) = gc + 1"
    unfolding nodeOk_def by auto
  have pnb: "pathBetween r start nb (xc @ [nb])" "int (length (xc @ [nb])) = (gc + 1) + 1"
    using pathBetween_snoc [OF xc(1) adj oc] xc(2) by simp_all
  consider (closed) "nb \<in> closedSet s"
    | (new) "nb \<notin> closedSet s" "nb \<notin> set (openSet s)"
    | (keep) "nb \<notin> closedSet s" "nb \<in> set (openSet s)" "geNum (Some (gc + 1)) (gScore s nb)"
    | (improve) "nb \<notin> closedSet s" "nb \<in> set (openSet s)" "\<not> geNum (Some (gc + 1)) (gScore s nb)"
    by blast
  then show ?thesis
  proof cases
    case closed
    then have "nodeOk r start goal s nb" using D(6) by simp
    then obtain gb where gb: "gScore s nb = Some gb" unfolding nodeOk_def by blast
    have "gb + 1 \<le> (gc + 1) + 1"
      using D(7) [OF closed] gb pnb unfolding closedOpt_def by metis
    then have "edgeOk s current nb" unfolding edgeOk_def using closed gc gb by simp
    then show ?thesis using inv_edge_done [OF inv] closed by (simp add: relaxNeighbor_def)
  next
    case keep
    then have "nodeOk r start goal s nb" using D(6) by simp
    then obtain gb where gb: "gScore s nb = Some gb" unfolding nodeOk_def by blast
    have "edgeOk s current nb" unfolding edgeOk_def using keep gc gb by (simp add: geNum_def)
    then show ?thesis using inv_edge_done [OF inv] keep gc by (simp add: relaxNeighbor_def)
  next
    case new
    let ?s' = "relaxNeighbor goal current s nb"
    have f: "openSet ?s' = openSet s @ [nb]" "closedSet ?s' = closedSet s"
      "cameFrom ?s' = (cameFrom s)(nb \<mapsto> current)" "gScore ?s' = (gScore s)(nb \<mapsto> gc + 1)"
      "fScore ?s' = (fScore s)(nb \<mapsto> gc + 1 + heuristic nb goal)"
      using new gc by (simp_all add: relaxNeighbor_def)
    have "astarInv r start goal (X - {(current, nb)}) ?s'"
      by (rule inv_record [OF inv cur adj oc new(1) gc _ _ _ f(2,3,4,5)])
         (use new D(1) f(1) in simp_all)
    then show ?thesis using f(2) by simp
  next
    case improve
    let ?s' = "relaxNeighbor goal current s nb"
    have f: "openSet ?s' = openSet s" "closedSet ?s' = closedSet s"
      "cameFrom ?s' = (cameFrom s)(nb \<mapsto> current)" "gScore ?s' = (gScore s)(nb \<mapsto> gc + 1)"
      "fScore ?s' = (fScore s)(nb \<mapsto> gc + 1 + heuristic nb goal)"
      using improve gc by (simp_all add: relaxNeighbor_def)
    have b: "gc + 1 \<le> gb" if "gScore s nb = Some gb" for gb
      using improve(3) that by (simp add: geNum_def)
    have "astarInv r start goal (X - {(current, nb)}) ?s'"
      by (rule inv_record [OF inv cur adj oc improve(1) gc _ _ _ f(2,3,4,5)])
         (use improve D(1) f(1) b in auto)
    then show ?thesis using f(2) by simp
  qed
qed

lemma relax_fold_inv:
  "astarInv r start goal X s \<Longrightarrow> current \<in> closedSet s
   \<Longrightarrow> \<forall>nb \<in> set nbs. adjacent current nb \<and> openCell r nb
   \<Longrightarrow> astarInv r start goal (X - {current} \<times> set nbs) (foldl (relaxNeighbor goal current) s nbs)
       \<and> closedSet (foldl (relaxNeighbor goal current) s nbs) = closedSet s"
proof (induction nbs arbitrary: s X)
  case Nil
  then show ?case by simp
next
  case (Cons nb nbs)
  have 1: "astarInv r start goal (X - {(current, nb)}) (relaxNeighbor goal current s nb)"
    and 2: "closedSet (relaxNeighbor goal current s nb) = closedSet s"
    using relax_inv [OF Cons.prems(1,2)] Cons.prems(3) by simp_all
  have 3: "X - {(current, nb)} - {current} \<times> set nbs = X - {current} \<times> set (nb # nbs)"
    by auto
  show ?case
    using Cons.IH [OF 1, unfolded 2, OF Cons.prems(2)] Cons.prems(3) 3 by simp
qed

lemma open_nonempty:
  assumes inv: "astarInv r start goal {} s" and ys: "pathBetween r start goal ys"
    and gcl: "goal \<notin> closedSet s"
  shows "\<exists>m \<in> set (openSet s). \<exists>gm. gScore s m = Some gm
           \<and> gm + heuristic m goal \<le> int (length ys) - 1"
proof -
  note D = astarInvD [OF inv]
  have "hd ys \<in> set (openSet s) \<union> closedSet s" "gScore s (hd ys) = Some 0"
    "last ys \<notin> closedSet s" "gridPath r ys" "ys \<noteq> []"
    using ys D(3,4) gcl unfolding pathBetween_def by auto
  from frontier [OF inv this(4,5,1,2,3)] show ?thesis
    using ys unfolding pathBetween_def by simp
qed

text \<open>Taking the cell with the lowest score out of the open list.\<close>

lemma pop_inv:
  assumes inv: "astarInv r start goal {} s" and ys: "pathBetween r start goal ys"
    and gcl: "goal \<notin> closedSet s" and op: "openSet s = first # rest"
    and sel: "sel = lowestF (fScore s) rest 1 (first, 0)"
    and O1: "openSet s1 = take (snd sel) (openSet s) @ drop (Suc (snd sel)) (openSet s)"
    and C1: "closedSet s1 = insert (fst sel) (closedSet s)"
    and F1: "cameFrom s1 = cameFrom s" and G1: "gScore s1 = gScore s" and H1: "fScore s1 = fScore s"
  shows "astarInv r start goal ({fst sel} \<times> UNIV) s1" "fst sel \<notin> closedSet s"
    "\<exists>g. gScore s (fst sel) = Some g \<and> g + heuristic (fst sel) goal \<le> int (length ys) - 1"
proof -
  note D = astarInvD [OF inv]
  let ?c = "fst sel" and ?i = "snd sel"
  have fdef: "\<forall>m \<in> set ([first] @ rest). fScore s m \<noteq> None"
  proof
    fix m assume "m \<in> set ([first] @ rest)"
    then have "nodeOk r start goal s m" using D(6) [of m] op by auto
    then show "fScore s m \<noteq> None" unfolding nodeOk_def by auto
  qed
  have "snd (lowestF (fScore s) rest 1 (first, 0)) < length ([first] @ rest)
       \<and> ([first] @ rest) ! snd (lowestF (fScore s) rest 1 (first, 0))
           = fst (lowestF (fScore s) rest 1 (first, 0))
       \<and> (\<forall>m \<in> set ([first] @ rest).
             the (fScore s (fst (lowestF (fScore s) rest 1 (first, 0)))) \<le> the (fScore s m))"
    by (rule lowestF_min [OF fdef]) simp_all
  then have i: "?i < length (openSet s)" and ci: "openSet s ! ?i = ?c"
    and least: "\<And>m. m \<in> set (openSet s) \<Longrightarrow> the (fScore s ?c) \<le> the (fScore s m)"
    unfolding sel op by auto
  have cin: "?c \<in> set (openSet s)" using i ci nth_mem by metis
  show ncl: "?c \<notin> closedSet s" using cin D(2) by auto
  have "nodeOk r start goal s ?c" using D(6) cin by simp
  then obtain gc where gc: "gScore s ?c = Some gc" "fScore s ?c = Some (gc + heuristic ?c goal)"
    unfolding nodeOk_def by blast
  have bound: "gc + heuristic ?c goal \<le> int (length xs) - 1 + heuristic t goal"
    if xs: "pathBetween r start t xs" and t: "t \<notin> closedSet s" for xs t
  proof -
    have "hd xs \<in> set (openSet s) \<union> closedSet s" "gScore s (hd xs) = Some 0"
      "last xs \<notin> closedSet s" "gridPath r xs" "xs \<noteq> []"
      using xs D(3,4) t unfolding pathBetween_def by auto
    from frontier [OF inv this(4,5,1,2,3)] obtain m gm where m: "m \<in> set (openSet s)"
      "gScore s m = Some gm" "gm + heuristic m goal \<le> int (length xs) - 1 + heuristic t goal"
      using xs unfolding pathBetween_def by auto
    have "nodeOk r start goal s m" using D(6) m(1) by simp
    then have "fScore s m = Some (gm + heuristic m goal)" using m(2) unfolding nodeOk_def by auto
    then show ?thesis using least [OF m(1)] gc(2) m(3) by simp
  qed
  show "\<exists>g. gScore s ?c = Some g \<and> g + heuristic ?c goal \<le> int (length ys) - 1"
    using bound [OF ys gcl] gc(1) by simp
  have set1: "set (openSet s1) = set (openSet s) - {?c}"
    unfolding O1 using set_remove_nth [OF D(1) i] ci by simp
  have nodes: "set (openSet s1) \<union> closedSet s1 = set (openSet s) \<union> closedSet s"
    using set1 C1 cin by auto
  show "astarInv r start goal ({?c} \<times> UNIV) s1"
  proof (rule astarInvI)
    show "distinct (openSet s1)" unfolding O1 by (rule distinct_remove_nth [OF D(1)])
    show "set (openSet s1) \<inter> closedSet s1 = {}" using set1 C1 D(2) by auto
    show "start \<in> closedSet s1 \<or> (openSet s1 = [start] \<and> closedSet s1 = {})"
      using D(3) C1 cin by auto
    show "gScore s1 start = Some 0" using D(4) G1 by simp
    show "cameFrom s1 start = None" using D(5) F1 by simp
    show "nodeOk r start goal s1 n" if "n \<in> set (openSet s1) \<union> closedSet s1" for n
    proof -
      have "nodeOk r start goal s n" using that nodes D(6) by blast
      then show ?thesis unfolding nodeOk_def F1 G1 H1 C1 by blast
    qed
    show "closedOpt r start s1 n" if n: "n \<in> closedSet s1" for n
    proof (cases "n = ?c")
      case True
      show ?thesis
        unfolding closedOpt_def G1 True
      proof (intro allI impI)
        fix g xs assume "gScore s ?c = Some g" "pathBetween r start ?c xs"
        then show "g + 1 \<le> int (length xs)" using bound [OF _ ncl, of xs] gc(1) by simp
      qed
    next
      case False
      then show ?thesis using D(7) [of n] n C1 unfolding closedOpt_def G1 by simp
    qed
    show "edgeOk s1 n b"
      if n: "n \<in> closedSet s1" and a: "adjacent n b" "openCell r b" and x: "(n, b) \<notin> {?c} \<times> UNIV"
      for n b
    proof -
      have "n \<in> closedSet s" using n x C1 by auto
      then have "edgeOk s n b" using D(8) a by simp
      then show ?thesis unfolding edgeOk_def G1 using nodes by simp
    qed
  qed
qed

text \<open>Following the predecessors from a known cell leads back to the start.\<close>

lemma reconstruct_path:
  assumes inv: "astarInv r start goal X s"
  shows "n \<in> set (openSet s) \<union> closedSet s \<Longrightarrow> gScore s n = Some g \<Longrightarrow> k = nat g
    \<Longrightarrow> \<exists>xs. reconstructLoop (cameFrom s) n (n # acc) = Some (xs @ acc)
           \<and> pathBetween r start n xs \<and> int (length xs) = g + 1"
proof (induction k arbitrary: n g acc rule: less_induct)
  case (less k)
  note D = astarInvD [OF inv]
  have ok: "nodeOk r start goal s n" using D(6) less.prems(1) by simp
  show ?case
  proof (cases "n = start")
    case True
    have "reconstructLoop (cameFrom s) n (n # acc) = Some ([start] @ acc)"
      by (subst reconstructLoop.simps) (simp add: True D(5))
    moreover have "pathBetween r start n [start]" by (simp add: pathBetween_def True)
    moreover have "g = 0" using less.prems(2) D(4) True by simp
    ultimately show ?thesis by (intro exI [of _ "[start]"]) simp
  next
    case False
    obtain p where p: "cameFrom s n = Some p" "p \<in> closedSet s" "adjacent p n" "openCell r n"
        "gScore s p = Some (g - 1)"
      using ok False less.prems(2) unfolding nodeOk_def by auto
    have "nodeOk r start goal s p" using D(6) p(2) by simp
    then have "0 \<le> g - 1" using p(5) unfolding nodeOk_def pathBetween_def by auto
    then have "nat (g - 1) < k" using less.prems(3) by simp
    from less.IH [OF this _ p(5) refl, of "n # acc"] p(2)
    obtain xs where xs: "reconstructLoop (cameFrom s) p (p # n # acc) = Some (xs @ n # acc)"
        "pathBetween r start p xs" "int (length xs) = g - 1 + 1"
      by auto
    have "reconstructLoop (cameFrom s) n (n # acc) = Some ((xs @ [n]) @ acc)"
      by (subst reconstructLoop.simps) (simp add: p(1) xs(1))
    moreover have "pathBetween r start n (xs @ [n])"
      by (rule pathBetween_snoc [OF xs(2) p(3,4)])
    ultimately show ?thesis using xs(3) by (intro exI [of _ "xs @ [n]"]) simp
  qed
qed

lemma finite_ball: "finite {c. heuristic start c \<le> L}"
proof (rule finite_subset)
  show "{c. heuristic start c \<le> L} \<subseteq> {fst start - L .. fst start + L} \<times> {snd start - L .. snd start + L}"
    unfolding heuristic_def by (auto; arith)
qed simp

lemma aStarLoop_correct:
  assumes cs: "0 < cellSize r" and ys: "pathBetween r start goal ys"
  shows "astarInv r start goal {} s \<Longrightarrow> goal \<notin> closedSet s
    \<Longrightarrow> closedSet s \<subseteq> {c. heuristic start c \<le> int (length ys)}
    \<Longrightarrow> \<exists>path. aStarLoop r goal s = Some path \<and> pathBetween r start goal path
          \<and> length path \<le> length ys"
proof (induction "card ({c. heuristic start c \<le> int (length ys)} - closedSet s)"
    arbitrary: s rule: less_induct)
  case less
  let ?B = "{c. heuristic start c \<le> int (length ys)}"
  note inv = less.prems(1)
  from open_nonempty [OF inv ys less.prems(2)] obtain first rest where op: "openSet s = first # rest"
    by (cases "openSet s") auto
  define sel where "sel = lowestF (fScore s) rest 1 (first, 0)"
  define s1 where "s1 = s\<lparr>openSet := take (snd sel) (openSet s) @ drop (Suc (snd sel)) (openSet s),
                      closedSet := insert (fst sel) (closedSet s)\<rparr>"
  have f1: "openSet s1 = take (snd sel) (openSet s) @ drop (Suc (snd sel)) (openSet s)"
    "closedSet s1 = insert (fst sel) (closedSet s)" "cameFrom s1 = cameFrom s"
    "gScore s1 = gScore s" "fScore s1 = fScore s"
    by (simp_all add: s1_def)
  note P = pop_inv [OF inv ys less.prems(2) op sel_def f1]
  have step: "aStarLoop r goal s =
      (if fst sel = goal then reconstructPath (cameFrom s1) (fst sel)
       else aStarLoop r goal (foldl (relaxNeighbor goal (fst sel)) s1 (getNeighbors r (fst sel))))"
    unfolding s1_def sel_def by (subst aStarLoop.simps) (simp only: op list.case Let_def)
  from P(3) obtain gc where gc: "gScore s (fst sel) = Some gc"
      "gc + heuristic (fst sel) goal \<le> int (length ys) - 1"
    by blast
  have c1: "fst sel \<in> closedSet s1" using f1(2) by simp
  note D1 = astarInvD [OF P(1)]
  show ?case
  proof (cases "fst sel = goal")
    case True
    from reconstruct_path [OF P(1), of goal gc "nat gc" "[]"] c1 gc(1) True f1(4)
    obtain xs where xs: "reconstructLoop (cameFrom s1) goal [goal] = Some xs"
        "pathBetween r start goal xs" "int (length xs) = gc + 1"
      by auto
    have "length xs \<le> length ys" using xs(3) gc(2) True by simp
    then show ?thesis unfolding step using True xs(1,2) by (simp add: reconstructPath_def)
  next
    case False
    let ?s' = "foldl (relaxNeighbor goal (fst sel)) s1 (getNeighbors r (fst sel))"
    have nb: "\<forall>nb \<in> set (getNeighbors r (fst sel)). adjacent (fst sel) nb \<and> openCell r nb"
      using getNeighbors_iff [OF cs] by simp
    from relax_fold_inv [OF P(1) c1 nb]
    have invX: "astarInv r start goal ({fst sel} \<times> UNIV - {fst sel} \<times> set (getNeighbors r (fst sel))) ?s'"
      and cl: "closedSet ?s' = closedSet s1"
      by simp_all
    note DX = astarInvD [OF invX]
    have inv': "astarInv r start goal {} ?s'"
    proof (rule astarInvI)
      fix n b assume "n \<in> closedSet ?s'" "adjacent n b" "openCell r b" "(n, b) \<notin> {}"
      then show "edgeOk ?s' n b"
        using DX(8) [of n b] getNeighbors_iff [OF cs, of b n] by auto
    qed (use DX in blast)+
    have "nodeOk r start goal s1 (fst sel)" using D1(6) c1 by simp
    then obtain xc where xc: "pathBetween r start (fst sel) xc" "int (length xc) = gc + 1"
      using gc(1) f1(4) unfolding nodeOk_def by auto
    have "heuristic start (fst sel) \<le> gc" using pathBetween_length [OF xc(1)] xc(2) by simp
    moreover have "0 \<le> heuristic (fst sel) goal" by (rule heuristic_nonneg)
    ultimately have inB: "fst sel \<in> ?B" using gc(2) by simp
    have sub: "closedSet ?s' \<subseteq> ?B" using cl f1(2) inB less.prems(3) by simp
    have gn: "goal \<notin> closedSet ?s'" using cl f1(2) False less.prems(2) by simp
    have "?B - closedSet ?s' \<subset> ?B - closedSet s" using cl f1(2) inB P(2) by auto
    then have "card (?B - closedSet ?s') < card (?B - closedSet s)"
      by (intro psubset_card_mono) (simp_all add: finite_ball)
    from less.hyps [OF this inv' gn sub] show ?thesis
      unfolding step using False by simp
  qed
qed

lemma findPathAStar_shortest:
  assumes cs: "0 < cellSize r" and ys: "pathBetween r start goal ys"
  shows "\<exists>path. findPathAStar (Some r) start goal = Some path \<and> pathBetween r start goal path
          \<and> length path \<le> length ys"
proof -
  let ?s = "\<lparr>openSet = [start], closedSet = {}, cameFrom = Map.empty,
             gScore = [start \<mapsto> 0], fScore = [start \<mapsto> heuristic start goal]\<rparr>"
  have "astarInv r start goal {} ?s"
  proof (rule astarInvI)
    show "nodeOk r start goal ?s n" if "n \<in> set (openSet ?s) \<union> closedSet ?s" for n
      unfolding nodeOk_def using that
      by (intro exI [of _ 0]) (auto simp add: pathBetween_def intro: exI [of _ "[start]"])
  qed simp_all
  from aStarLoop_correct [OF cs ys this] show ?thesis
    by (simp add: findPathAStar_def)
qed

definition pathCost :: "node list \<Rightarrow> int" where
  "pathCost xs = int (length xs) - 1"

text \<open>
  Two runs on a grid with a wall between the start and the goal: the way round is found,
  seven cells for six moves where the Manhattan distance is two, and a wall cell as the
  goal gives the empty array.
\<close>

definition rendererDetour :: renderer where
  "rendererDetour = \<lparr>cellSize = 20, mazeWidth = 5, mazeHeight = 5,
     maze = Some (gridOfRows [[1, 1, 1, 1, 1], [1, 0, 0, 0, 1], [1, 0, 1, 0, 1],
                              [1, 0, 1, 0, 1], [1, 1, 1, 1, 1]])\<rparr>"

lemma findPathAStar_detour:
  "findPathAStar (Some rendererDetour) (1, 3) (3, 3)
     = Some [(1, 3), (1, 2), (1, 1), (2, 1), (3, 1), (3, 2), (3, 3)]"
  by code_simp

lemma findPathAStar_unreachable:
  "findPathAStar (Some rendererDetour) (1, 3) (2, 2) = Some []"
  by code_simp

text \<open>
  C3. Let the cell size be positive and let some path lead from \<open>start\<close> to \<open>goal\<close>:
  a list of cells in which consecutive cells are 4-directionally adjacent and every cell
  entered is a non-wall cell. Then \<open>findPathAStar\<close> returns, and what it returns is such
  a path from \<open>start\<close> to \<open>goal\<close> whose cost, one per move, is least among all of them.
  The cost is never below the Manhattan distance, and it equals the Manhattan distance
  whenever some path of that cost exists, that is, when no wall forces a detour. The
  returned array lists the cells of the path with both ends, so it holds one cell more
  than the path has moves.
\<close>

theorem astar_shortest_path:
  assumes "0 < cellSize r" and "pathBetween r start goal ys"
  shows "\<exists>path. findPathAStar (Some r) start goal = Some path
          \<and> pathBetween r start goal path
          \<and> (\<forall>zs. pathBetween r start goal zs \<longrightarrow> pathCost path \<le> pathCost zs)
          \<and> heuristic start goal \<le> pathCost path
          \<and> ((\<exists>zs. pathBetween r start goal zs \<and> pathCost zs = heuristic start goal)
               \<longrightarrow> pathCost path = heuristic start goal)"
proof -
  from findPathAStar_shortest [OF assms] obtain path
    where p: "findPathAStar (Some r) start goal = Some path" "pathBetween r start goal path"
    by blast
  have least: "pathCost path \<le> pathCost zs" if "pathBetween r start goal zs" for zs
    using findPathAStar_shortest [OF assms(1) that] p(1) by (auto simp add: pathCost_def)
  have lower: "heuristic start goal \<le> pathCost path"
    using pathBetween_length [OF p(2)] by (simp add: pathCost_def)
  have "pathCost path = heuristic start goal"
    if "\<exists>zs. pathBetween r start goal zs \<and> pathCost zs = heuristic start goal"
    using that least lower by force
  then show ?thesis using p least lower by blast
qed

theorem astar_shortest_path_witness:
  "0 < cellSize renderer0
   \<and> pathBetween renderer0 (1, 1) (3, 3) [(1, 1), (1, 2), (1, 3), (2, 3), (3, 3)]
   \<and> (\<exists>path. findPathAStar (Some renderer0) (1, 1) (3, 3) = Some path
         \<and> pathBetween renderer0 (1, 1) (3, 3) path
         \<and> pathCost path = 4 \<and> length path = 5)"
proof -
  have c: "0 < cellSize renderer0" by (simp add: renderer0_def)
  have y: "pathBetween renderer0 (1, 1) (3, 3) [(1, 1), (1, 2), (1, 3), (2, 3), (3, 3)]"
    by (simp add: pathBetween_def adjacent_def openCell_def renderer0_def gridOfRows_def)
  have h: "pathCost [(1, 1), (1, 2), (1, 3), (2, 3), (3, 3)] = heuristic (1, 1) (3, 3)"
    by (simp add: pathCost_def heuristic_def)
  from astar_shortest_path [OF c y] obtain path
    where p: "findPathAStar (Some renderer0) (1, 1) (3, 3) = Some path"
      "pathBetween renderer0 (1, 1) (3, 3) path"
      "(\<exists>zs. pathBetween renderer0 (1, 1) (3, 3) zs \<and> pathCost zs = heuristic (1, 1) (3, 3))
         \<longrightarrow> pathCost path = heuristic (1, 1) (3, 3)"
    by blast
  have "pathCost path = heuristic (1, 1) (3, 3)" using p(3) y h by blast
  then have "pathCost path = 4 \<and> length path = 5" by (simp add: pathCost_def heuristic_def)
  then show ?thesis using c y p(1,2) by blast
qed

end
